theory Spec2Isabelle
  imports Main "HOL-Library.Sublist"
begin

section \<open>Messages, errors\<close>

text \<open>
  A conversation turn is a LangChain message: who produced it and its text. JavaScript
  strings are modelled as \<^typ>\<open>string\<close>, the list of their code units (restricted to
  the 8-bit range, which covers every constant of the program that matters below).
\<close>

datatype role = Human | Assistant | ToolResult

datatype message = Message (role: role) (content: string)

definition HumanMessage :: "string \<Rightarrow> message" where
  "HumanMessage userText = Message Human userText"

text \<open>A thrown JavaScript \<open>Error\<close>, carrying its \<open>message\<close>.\<close>

datatype error = Error (message: string)

section \<open>Conversation memory\<close>

text \<open>
  \<open>src/memory\<close> is not among the source files; only its callers are
  (\<open>new MemoryStore(50)\<close>, \<open>getMessages\<close>, \<open>addMessages\<close>, \<open>getMessageCount\<close>,
  \<open>clear\<close>). The store is therefore modelled from section 4.1 of the specification.
\<close>

record MemoryStore =
  messages :: "message list"
  maxMessages :: nat

text \<open>Modelled from the spec: the constructor of the memory store (\<open>src/memory\<close> is
  missing): a new store is empty and remembers its capacity.\<close>

definition newMemoryStore :: "nat \<Rightarrow> MemoryStore" where
  "newMemoryStore capacity = \<lparr>messages = [], maxMessages = capacity\<rparr>"

text \<open>Modelled from the spec: \<open>all()\<close> (\<open>getMessages\<close> at the call sites) "returns the
  current ordered history".\<close>

definition getMessages :: "MemoryStore \<Rightarrow> message list" where
  "getMessages st = messages st"

text \<open>Modelled from the spec: \<open>count()\<close> (\<open>getMessageCount\<close> at the call sites)
  "returns current length".\<close>

definition getMessageCount :: "MemoryStore \<Rightarrow> nat" where
  "getMessageCount st = length (messages st)"

text \<open>Modelled from the spec: \<open>clear()\<close> "empties the sequence immediately".\<close>

definition clear :: "MemoryStore \<Rightarrow> MemoryStore" where
  "clear st = st\<lparr>messages := []\<rparr>"

text \<open>Modelled from the spec: \<open>append(turns)\<close> (\<open>addMessages\<close> at the call sites) "adds
  turns in order to the tail; applies FIFO eviction if capacity is exceeded", the oldest
  turns being evicted first.\<close>

definition addMessages :: "message list \<Rightarrow> MemoryStore \<Rightarrow> MemoryStore" where
  "addMessages turns st =
     (let appended = messages st @ turns in
      st\<lparr>messages :=
          (if length appended > maxMessages st
           then drop (length appended - maxMessages st) appended
           else appended)\<rparr>)"

text \<open>
  What happens to one store over its life: jobs append, the user may clear. The two
  histories are ghost values used to state the memory bound: every turn ever appended,
  and the turns appended since the last clear.
\<close>

datatype store_op = Append "message list" | Clear

fun applyOp :: "store_op \<Rightarrow> MemoryStore \<Rightarrow> MemoryStore" where
  "applyOp (Append turns) st = addMessages turns st"
| "applyOp Clear st = clear st"

fun everAppended :: "store_op list \<Rightarrow> message list" where
  "everAppended [] = []"
| "everAppended (Append turns # ops) = turns @ everAppended ops"
| "everAppended (Clear # ops) = everAppended ops"

fun sinceClear :: "message list \<Rightarrow> store_op list \<Rightarrow> message list" where
  "sinceClear h [] = h"
| "sinceClear h (Append turns # ops) = sinceClear (h @ turns) ops"
| "sinceClear h (Clear # ops) = sinceClear [] ops"

definition lastTurns :: "nat \<Rightarrow> message list \<Rightarrow> message list" where
  "lastTurns n h = drop (length h - n) h"

section \<open>The job runner\<close>

text \<open>
  \<open>createGraph\<close> (\<open>src/agent\<close>) is not among the source files. To the job runner the
  compiled graph is the function behind \<open>graph.invoke(initial, { recursionLimit })\<close>: it
  takes the step limit and the input messages and either throws or returns
  \<open>result.messages\<close>.
\<close>

type_synonym graph = "nat \<Rightarrow> message list \<Rightarrow> error + message list"

text \<open>
  What one call of \<open>runJob\<close> leaves behind: what it returned or threw, the memory store
  after it, and the arguments of the \<open>addMessages\<close> calls it made, in order.
\<close>

record job_outcome =
  returned :: "error + string"
  store :: MemoryStore
  appendCalls :: "message list list"

text \<open>
  \<open>runJob\<close> of \<open>main.ts\<close>. \<open>result.messages.slice(previousCount)\<close> is \<^const>\<open>drop\<close>
  (an index past the end gives the empty array); \<open>result.messages[length - 1]\<close> is
  \<open>undefined\<close> on an empty array, and \<open>finalMsg?.content ?? ""\<close> is then the empty
  string. An exception of \<open>graph.invoke\<close> leaves the function before the store is
  touched.
\<close>

definition runJob :: "string \<Rightarrow> graph \<Rightarrow> MemoryStore \<Rightarrow> job_outcome" where
  "runJob userText graph memoryStore =
     (let previousMessages = getMessages memoryStore;
          previousCount = length previousMessages;
          userMessage = HumanMessage userText;
          initial = previousMessages @ [userMessage]
      in case graph 60 initial of
           Inl e \<Rightarrow> \<lparr>returned = Inl e, store = memoryStore, appendCalls = []\<rparr>
         | Inr result \<Rightarrow>
             (let newMessages = drop previousCount result;
                  finalMsg = (if result = [] then None else Some (last result))
              in \<lparr>returned = Inr (case finalMsg of None \<Rightarrow> [] | Some m \<Rightarrow> content m),
                  store = (if length newMessages > 0
                           then addMessages newMessages memoryStore else memoryStore),
                  appendCalls = (if length newMessages > 0 then [newMessages] else [])\<rparr>))"

text \<open>
  \<open>TelegramBotHandler.runJob\<close> of \<open>integrations/telegram.ts\<close>: the same steps on the
  session's store; \<open>chatId\<close> is only logged.
\<close>

definition tgRunJob :: "string \<Rightarrow> graph \<Rightarrow> MemoryStore \<Rightarrow> int \<Rightarrow> job_outcome" where
  "tgRunJob userText graph memoryStore chatId =
     (let previousMessages = getMessages memoryStore;
          previousCount = length previousMessages;
          userMessage = HumanMessage userText;
          initial = previousMessages @ [userMessage]
      in case graph 60 initial of
           Inl e \<Rightarrow> \<lparr>returned = Inl e, store = memoryStore, appendCalls = []\<rparr>
         | Inr result \<Rightarrow>
             (let newMessages = drop previousCount result;
                  finalMsg = (if result = [] then None else Some (last result))
              in \<lparr>returned = Inr (case finalMsg of None \<Rightarrow> [] | Some m \<Rightarrow> content m),
                  store = (if length newMessages > 0
                           then addMessages newMessages memoryStore else memoryStore),
                  appendCalls = (if length newMessages > 0 then [newMessages] else [])\<rparr>))"

text \<open>Two graphs to run the job runner on: one answers every input with one assistant
  turn after it, one throws.\<close>

definition answeringGraph :: graph where
  "answeringGraph limit initial = Inr (initial @ [Message Assistant ''ok''])"

definition failingGraph :: graph where
  "failingGraph limit initial = Inl (Error ''planner unavailable'')"

section \<open>The command line\<close>

text \<open>
  \<open>String.prototype.trim\<close> removes white space and line terminators at both ends; in
  the 8-bit range these are tab, line feed, vertical tab, form feed, carriage return,
  space and the no-break space.
\<close>

definition isWhiteSpace :: "char \<Rightarrow> bool" where
  "isWhiteSpace c = (of_char c \<in> {9, 10, 11, 12, 13, 32, 160 :: nat})"

definition trim :: "string \<Rightarrow> string" where
  "trim s = rev (dropWhile isWhiteSpace (rev (dropWhile isWhiteSpace s)))"

text \<open>What the line handler of \<open>main.ts\<close> writes to the console.\<close>

datatype console =
    HistoryCleared
  | MemoryCount nat
  | FinalAnswer string
  | JobError string

record cli =
  memoryStore :: MemoryStore
  printed :: "console list"
  jobsRun :: nat

text \<open>
  The \<open>rl.on("line", ...)\<close> handler of \<open>main\<close>, one line at a time. \<open>jobsRun\<close> counts
  the calls of \<open>runJob\<close>.
\<close>

definition onLine :: "graph \<Rightarrow> string \<Rightarrow> cli \<Rightarrow> cli" where
  "onLine graph line c =
     (let task = trim line in
      if task = [] then c
      else if task = ''/clear'' \<or> task = ''/reset'' then
        c\<lparr>memoryStore := clear (memoryStore c), printed := printed c @ [HistoryCleared]\<rparr>
      else if task = ''/memory'' \<or> task = ''/stats'' then
        c\<lparr>printed := printed c @ [MemoryCount (getMessageCount (memoryStore c))]\<rparr>
      else
        (let out = runJob task graph (memoryStore c) in
         case returned out of
           Inr answer \<Rightarrow>
             c\<lparr>memoryStore := store out, printed := printed c @ [FinalAnswer answer],
               jobsRun := Suc (jobsRun c)\<rparr>
         | Inl e \<Rightarrow>
             c\<lparr>memoryStore := store out, printed := printed c @ [JobError (message e)],
               jobsRun := Suc (jobsRun c)\<rparr>))"

text \<open>The command-line session as \<open>main\<close> starts it: \<open>new MemoryStore(50)\<close>.\<close>

definition cliStart :: cli where
  "cliStart = \<lparr>memoryStore = newMemoryStore 50, printed = [], jobsRun = 0\<rparr>"

section \<open>The step loop\<close>

text \<open>
  \<open>createGraph\<close> and the graph it compiles (\<open>src/agent\<close>) are not among the source
  files; \<open>runJob\<close> only calls \<open>graph.invoke(initial, { recursionLimit: 60 })\<close>. The loop
  behind that call is modelled from section 4.3 of the specification: the states Think,
  Act, Observe and Done, with the step counter as part of the state.
\<close>

datatype tool_request = ToolRequest (toolName: string) (toolInput: string)

datatype planner_response = FinalText string | ToolRequests "tool_request list"

text \<open>
  The planner is an opaque service: its answer may depend on the number of the cycle as
  well as on the turns it is shown, and the call may fail (a job-level error).
\<close>

type_synonym planner = "nat \<Rightarrow> message list \<Rightarrow> error + planner_response"

text \<open>A registered tool: its schema check and its handler, which returns text.\<close>

record tool =
  schema :: "string \<Rightarrow> bool"
  handler :: "string \<Rightarrow> string"

type_synonym registry = "string \<rightharpoonup> tool"

text \<open>Modelled from the spec: Act and Observe for one request (the graph of \<open>src/agent\<close>
  is missing): "looks up the named capability in the Tool Registry, validates the input
  against that tool's declared schema, and executes it"; the "textual result (success or
  error string ...) is appended as a new tool-result turn". An unknown tool name "must
  produce an error observation, not a crash".\<close>

definition observe :: "registry \<Rightarrow> tool_request \<Rightarrow> message" where
  "observe reg request =
     (case reg (toolName request) of
        None \<Rightarrow> Message ToolResult (''Error: unknown tool '' @ toolName request)
      | Some t \<Rightarrow>
          if schema t (toolInput request)
          then Message ToolResult (handler t (toolInput request))
          else Message ToolResult (''Error: invalid input for '' @ toolName request))"

text \<open>One completed cycle, as the loop records it: the requests Think returned and the
  tool-result turns Act and Observe appended for them.\<close>

record cycle =
  requested :: "tool_request list"
  observed :: "message list"

text \<open>Modelled from the spec: the Step-Loop (the graph of \<open>src/agent\<close> is missing). Done
  is reached "when Think returns a final answer with no further tool requests, or when the
  step counter reaches the configured limit"; "each Think, Act, Observe cycle increments
  the counter by one regardless of how many tool calls were issued within it"; reaching
  the limit "is not an error"; the loop "returns the full resulting turn sequence". The
  result also carries the final value of the counter and the record of the cycles that
  were run, in order.\<close>

function stepLoop ::
  "planner \<Rightarrow> registry \<Rightarrow> nat \<Rightarrow> nat \<Rightarrow> cycle list \<Rightarrow> message list
     \<Rightarrow> error + (message list \<times> nat \<times> cycle list)" where
  "stepLoop plan reg stepLimit counter cycles turns =
     (if stepLimit \<le> counter then Inr (turns, counter, cycles)
      else case plan counter turns of
             Inl e \<Rightarrow> Inl e
           | Inr (FinalText answer) \<Rightarrow> Inr (turns @ [Message Assistant answer], counter, cycles)
           | Inr (ToolRequests requests) \<Rightarrow>
               (let results = map (observe reg) requests
                in stepLoop plan reg stepLimit (Suc counter)
                     (cycles @ [\<lparr>requested = requests, observed = results\<rparr>])
                     (turns @ results)))"
  by pat_completeness auto
termination
  by (relation "measure (\<lambda>(plan, reg, stepLimit, counter, cycles, turns). stepLimit - counter)")
     auto

text \<open>Modelled from the spec: the graph handed to the job runner is the Step-Loop started
  with the counter at zero and no cycle run (\<open>createGraph\<close> is missing).\<close>

definition stepLoopGraph :: "planner \<Rightarrow> registry \<Rightarrow> graph" where
  "stepLoopGraph plan reg stepLimit initial =
     (case stepLoop plan reg stepLimit 0 [] initial of
        Inl e \<Rightarrow> Inl e
      | Inr (turns, counter, cycles) \<Rightarrow> Inr turns)"

text \<open>The record of cycles is faithful to a planner and a registry from the input
  \<open>initial\<close> when, for each cycle, its requests are what the planner returned on being
  shown \<open>initial\<close> followed by the observations of all cycles before it, and its
  observations are those of its requests.\<close>

definition recorded :: "planner \<Rightarrow> registry \<Rightarrow> message list \<Rightarrow> cycle list \<Rightarrow> bool" where
  "recorded plan reg initial cycles =
     (\<forall>i < length cycles.
        plan i (initial @ concat (map observed (take i cycles)))
          = Inr (ToolRequests (requested (cycles ! i)))
        \<and> observed (cycles ! i) = map (observe reg) (requested (cycles ! i)))"

text \<open>A planner that asks for one click in every cycle and never answers, and a registry
  with one tool.\<close>

definition restlessPlanner :: planner where
  "restlessPlanner counter turns = Inr (ToolRequests [ToolRequest ''browser_click'' ''#next''])"

definition oneToolRegistry :: registry where
  "oneToolRegistry =
     [''browser_click'' \<mapsto> \<lparr>schema = (\<lambda>input. True), handler = (\<lambda>input. ''Successfully clicked: '' @ input)\<rparr>]"

section \<open>Configuration and start-up\<close>

text \<open>\<open>process.env\<close>: a variable is unset (\<open>undefined\<close>) or set to a string.\<close>

type_synonym env = "string \<rightharpoonup> string"

text \<open>JavaScript truthiness of \<open>string | undefined\<close>: \<open>undefined\<close> and the empty string
  are falsy.\<close>

definition truthy :: "string option \<Rightarrow> bool" where
  "truthy v = (case v of None \<Rightarrow> False | Some s \<Rightarrow> s \<noteq> [])"

text \<open>The lines of the error message of \<open>createLLM\<close>, as the source concatenates them.\<close>

definition requiredLine :: string where
  "requiredLine = ''OPENAI_API_KEY is required.'' @ [CHR 0x0A]"

definition dotenvLine :: string where
  "dotenvLine =
     ''Create a .env file in the project root with: OPENAI_API_KEY=your-key-here'' @ [CHR 0x0A]"

definition exportLines :: string where
  "exportLines =
     ''Or set it as an environment variable:'' @ [CHR 0x0A]
     @ ''  - Linux/Mac: export OPENAI_API_KEY='' @ [CHR 0x27] @ ''your-key-here'' @ [CHR 0x27, CHR 0x0A]
     @ ''  - Windows PowerShell: $env:OPENAI_API_KEY='' @ [CHR 0x27] @ ''your-key-here'' @ [CHR 0x27, CHR 0x0A]
     @ ''  - Windows CMD: set OPENAI_API_KEY=your-key-here''"

text \<open>The chat model \<open>createLLM\<close> configures, by its model name (the temperature plays
  no part below).\<close>

datatype llm = ChatOpenAI string

text \<open>\<open>createLLM\<close>: throws when \<open>process.env.OPENAI_API_KEY\<close> is falsy.\<close>

definition createLLM :: "env \<Rightarrow> error + llm" where
  "createLLM environment =
     (let apiKey = environment ''OPENAI_API_KEY'' in
      if \<not> truthy apiKey then Inl (Error (requiredLine @ dotenvLine @ exportLines))
      else Inr (ChatOpenAI ''gpt-4o''))"

text \<open>
  Start-up. In command-line mode \<open>main\<close> calls \<open>createLLM\<close> before it creates the
  readline interface and registers the line handler. In Telegram mode the constructor of
  \<open>TelegramBotHandler\<close> calls \<open>createLLM\<close> before \<open>setupHandlers\<close>. In both, an
  exception leaves \<open>main\<close>, and \<open>main().catch\<close> prints it and exits with code 1. A
  process that got through is listening in one of the two modes.
\<close>

datatype mode = TelegramMode | CliMode

definition newTelegramBotHandler :: "env \<Rightarrow> error + llm" where
  "newTelegramBotHandler environment =
     (case createLLM environment of
        Inl e \<Rightarrow> Inl e
      | Inr model \<Rightarrow> Inr model)"

definition main :: "env \<Rightarrow> error + mode" where
  "main environment =
     (let telegramToken = environment ''TELEGRAM_BOT_TOKEN'';
          useTelegram = truthy telegramToken
      in if useTelegram then
           (case newTelegramBotHandler environment of
              Inl e \<Rightarrow> Inl e
            | Inr telegramBot \<Rightarrow> Inr TelegramMode)
         else
           (case createLLM environment of
              Inl e \<Rightarrow> Inl e
            | Inr model \<Rightarrow> Inr CliMode))"

datatype process = Exited nat string | Listening mode

definition startProcess :: "env \<Rightarrow> process" where
  "startProcess environment =
     (case main environment of
        Inl e \<Rightarrow> Exited 1 (message e)
      | Inr m \<Rightarrow> Listening m)"

section \<open>Browser tools\<close>

text \<open>
  The Playwright page behind \<open>browserController.ensure()\<close>, as far as the three tools
  below use it. Every call may throw (a time-out, a closed page); what a call answers is
  a parameter of the model. \<open>page.$\<close> returns an element handle or \<open>null\<close>.
\<close>

datatype button = LeftButton | RightButton

record element =
  isVisible :: "error + bool"

record page =
  goto :: "string \<Rightarrow> error + unit"
  title :: "error + string"
  waitForSelector :: "string \<Rightarrow> error + unit"
  query :: "string \<Rightarrow> error + element option"
  click :: "string \<Rightarrow> button \<Rightarrow> error + unit"

record browserController =
  ensure :: "error + page"

text \<open>\<open>gotoTool\<close> (\<open>browser_goto\<close>): no \<open>try\<close> block; an exception of \<open>ensure\<close>,
  \<open>page.goto\<close> or \<open>page.title\<close> leaves the handler.\<close>

definition gotoTool :: "browserController \<Rightarrow> string \<Rightarrow> error + string" where
  "gotoTool controller url =
     (case ensure controller of
        Inl e \<Rightarrow> Inl e
      | Inr page \<Rightarrow>
          (case goto page url of
             Inl e \<Rightarrow> Inl e
           | Inr u \<Rightarrow>
               (case title page of
                  Inl e \<Rightarrow> Inl e
                | Inr pageTitle \<Rightarrow>
                    Inr (''Navigated to '' @ url @ ''. Title: '' @ pageTitle
                         @ ''. Check for popups using browser_check_popups if needed.''))))"

text \<open>The body of the \<open>try\<close> block of \<open>clickTool\<close>: its early returns are results, its
  exceptions go to the \<open>catch\<close>.\<close>

definition clickAttempt :: "page \<Rightarrow> string \<Rightarrow> error + string" where
  "clickAttempt page selector =
     (case waitForSelector page selector of
        Inl e \<Rightarrow> Inl e
      | Inr u \<Rightarrow>
          (case query page selector of
             Inl e \<Rightarrow> Inl e
           | Inr None \<Rightarrow>
               Inr (''ERROR: Element not found: '' @ selector
                    @ ''. Use browser_find_links or browser_find_by_text to find the correct selector.'')
           | Inr (Some el) \<Rightarrow>
               (case isVisible el of
                  Inl e \<Rightarrow> Inl e
                | Inr visible \<Rightarrow>
                    if \<not> visible then
                      Inr (''ERROR: Element exists but is not visible: '' @ selector
                           @ ''. The element might be hidden or require scrolling.'')
                    else
                      (case click page selector LeftButton of
                         Inl e \<Rightarrow> Inl e
                       | Inr u \<Rightarrow> Inr (''Successfully clicked: '' @ selector)))))"

text \<open>\<open>clickTool\<close> (\<open>browser_click\<close>): \<open>ensure\<close> is called before the \<open>try\<close>; the
  \<open>catch\<close> turns every exception of the block into an \<open>ERROR\<close> string.\<close>

definition clickTool :: "browserController \<Rightarrow> string \<Rightarrow> error + string" where
  "clickTool controller selector =
     (case ensure controller of
        Inl e \<Rightarrow> Inl e
      | Inr page \<Rightarrow>
          (case clickAttempt page selector of
             Inr text \<Rightarrow> Inr text
           | Inl e \<Rightarrow>
               Inr (''ERROR clicking '' @ selector @ '': '' @ message e
                    @ ''. Try using browser_find_by_text to find the element by its text content, or browser_find_links to see all clickable links.'')))"

text \<open>\<open>rightClickTool\<close> (\<open>browser_right_click\<close>): the same \<open>page.click\<close> with the right
  button, and no \<open>try\<close> block.\<close>

definition rightClickTool :: "browserController \<Rightarrow> string \<Rightarrow> error + string" where
  "rightClickTool controller selector =
     (case ensure controller of
        Inl e \<Rightarrow> Inl e
      | Inr page \<Rightarrow>
          (case click page selector RightButton of
             Inl e \<Rightarrow> Inl e
           | Inr u \<Rightarrow> Inr (''Right-clicked selector: '' @ selector)))"

text \<open>A page on which no selector matches and navigation times out: Playwright's calls
  throw their time-out errors.\<close>

definition blankPage :: page where
  "blankPage =
     \<lparr>goto = (\<lambda>url. Inl (Error ''page.goto: Timeout 30000ms exceeded.'')),
      title = Inr ''about:blank'',
      waitForSelector = (\<lambda>selector. Inl (Error ''page.waitForSelector: Timeout 10000ms exceeded.'')),
      query = (\<lambda>selector. Inr None),
      click = (\<lambda>selector b. Inl (Error ''page.click: Timeout 15000ms exceeded.''))\<rparr>"

definition blankBrowser :: browserController where
  "blankBrowser = \<lparr>ensure = Inr blankPage\<rparr>"

section \<open>Splitting a long reply\<close>

text \<open>
  \<open>response.match(/.{1,4000}/g) || []\<close>. Without the \<open>s\<close> flag the dot matches any code
  unit but a line terminator (line feed and carriage return in the 8-bit range). A global
  match starts at index 0 and repeats: at a line terminator the pattern cannot match, so
  the search moves on by one; elsewhere the greedy quantifier takes the longest run of
  up to \<open>limit\<close> units that holds no line terminator, and the search resumes at its end.
\<close>

definition isLineTerminator :: "char \<Rightarrow> bool" where
  "isLineTerminator c = (c = CHR 0x0A \<or> c = CHR 0x0D)"

definition dotRun :: "nat \<Rightarrow> string \<Rightarrow> string" where
  "dotRun limit s = take limit (takeWhile (\<lambda>c. \<not> isLineTerminator c) s)"

function matchDotChunks :: "nat \<Rightarrow> string \<Rightarrow> string list" where
  "matchDotChunks limit s =
     (if s = [] \<or> limit = 0 then []
      else if isLineTerminator (hd s) then matchDotChunks limit (tl s)
      else dotRun limit s # matchDotChunks limit (drop (length (dotRun limit s)) s))"
  by pat_completeness auto
termination
proof (relation "measure (\<lambda>(limit, s). length s)")
  show "wf (measure (\<lambda>(limit, s). length s))"
    by simp
next
  fix limit :: nat and s :: string
  assume "\<not> (s = [] \<or> limit = 0)" "isLineTerminator (hd s)"
  then show "((limit, tl s), (limit, s)) \<in> measure (\<lambda>(limit, s). length s)"
    by (cases s) simp_all
next
  fix limit :: nat and s :: string
  assume "\<not> (s = [] \<or> limit = 0)" "\<not> isLineTerminator (hd s)"
  then have "0 < length (dotRun limit s)"
    by (cases s) (simp_all add: dotRun_def)
  moreover assume "\<not> (s = [] \<or> limit = 0)"
  ultimately show "((limit, drop (length (dotRun limit s)) s), (limit, s))
      \<in> measure (\<lambda>(limit, s). length s)"
    by simp
qed

text \<open>The marker appended to every chunk but the last: two line feeds and
  \<open>_(continued...)_\<close>.\<close>

definition continuedMarker :: string where
  "continuedMarker = [CHR 0x0A, CHR 0x0A] @ ''_(continued...)_''"

text \<open>The texts the message handler sends for a job's response: the response itself when
  it has at most 4096 units, else one message per chunk, in order.\<close>

definition responseMessages :: "string \<Rightarrow> string list" where
  "responseMessages response =
     (if length response > 4096 then
        (let chunks = matchDotChunks 4000 response in
         map (\<lambda>i. chunks ! i @ (if i < length chunks - 1 then continuedMarker else []))
             [0 ..< length chunks])
      else [response])"

text \<open>A reply of two lines of 3000 letters each.\<close>

definition twoLineReply :: string where
  "twoLineReply = replicate 3000 CHR ''a'' @ [CHR 0x0A] @ replicate 3000 CHR ''b''"

section \<open>The Telegram integration\<close>

text \<open>
  \<open>TelegramBotHandler\<close>. Its \<open>sessions\<close> map takes a chat id to a \<open>UserSession\<close> object,
  which refers to the session's own \<open>MemoryStore\<close> object. Objects are kept in an
  explicit heap: \<open>stores\<close> maps an address to the store living there, and \<open>allocated\<close>
  is the next free address, so \<open>new MemoryStore(50)\<close> always yields an address no
  session refers to. A session's \<open>graph\<close> is \<open>createGraph\<close> of the same three arguments for
  every session; it is passed to the handlers as a parameter.
\<close>

record UserSession =
  storeRef :: nat

text \<open>What the bot sends: the fixed texts by name, a job's response and an error by their
  text.\<close>

datatype reply =
    Welcome
  | Help
  | ClearedReply
  | MemoryReply nat
  | AskForText
  | Response string
  | ErrorReply string

datatype outbound = SendMessage int reply | SendChatAction int

record bot =
  sessions :: "int \<rightharpoonup> UserSession"
  stores :: "nat \<Rightarrow> MemoryStore"
  allocated :: nat
  outbox :: "outbound list"
  jobsStarted :: nat

definition botStart :: bot where
  "botStart = \<lparr>sessions = Map.empty, stores = (\<lambda>address. newMemoryStore 50), allocated = 0,
     outbox = [], jobsStarted = 0\<rparr>"

text \<open>\<open>getOrCreateSession\<close>: the session and the state after the call.\<close>

definition getOrCreateSession :: "int \<Rightarrow> bot \<Rightarrow> UserSession \<times> bot" where
  "getOrCreateSession userId b =
     (case sessions b userId of
        Some session \<Rightarrow> (session, b)
      | None \<Rightarrow>
          (let memoryStore = allocated b;
               session = \<lparr>storeRef = memoryStore\<rparr>
           in (session,
               b\<lparr>stores := (stores b)(memoryStore := newMemoryStore 50),
                 allocated := Suc (allocated b),
                 sessions := (sessions b)(userId \<mapsto> session)\<rparr>)))"

definition send :: "int \<Rightarrow> reply \<Rightarrow> bot \<Rightarrow> bot" where
  "send chatId r b = b\<lparr>outbox := outbox b @ [SendMessage chatId r]\<rparr>"

text \<open>The four \<open>onText\<close> callbacks of \<open>setupHandlers\<close>.\<close>

definition onStart :: "int \<Rightarrow> bot \<Rightarrow> bot" where
  "onStart chatId b = send chatId Welcome b"

definition onHelp :: "int \<Rightarrow> bot \<Rightarrow> bot" where
  "onHelp chatId b = send chatId Help b"

definition onClear :: "int \<Rightarrow> bot \<Rightarrow> bot" where
  "onClear chatId b =
     (let (session, b1) = getOrCreateSession chatId b;
          b2 = b1\<lparr>stores := (stores b1)(storeRef session := clear (stores b1 (storeRef session)))\<rparr>
      in send chatId ClearedReply b2)"

definition onMemory :: "int \<Rightarrow> bot \<Rightarrow> bot" where
  "onMemory chatId b =
     (let (session, b1) = getOrCreateSession chatId b;
          count = getMessageCount (stores b1 (storeRef session))
      in send chatId (MemoryReply count) b1)"

text \<open>
  The \<open>message\<close> callback is an \<open>async\<close> function: it runs until it awaits, and goes
  on when the awaited call has settled. Its first part, up to the first \<open>await\<close>: a text
  that begins with a slash ends the callback; a missing or blank text sends the request
  for a text and ends it; any other text sends the typing indicator, and the callback
  waits for that call with the text in hand. \<open>msg.text\<close> is \<open>undefined\<close> for a message
  without text.
\<close>

definition messageArrival :: "int \<Rightarrow> string option \<Rightarrow> bot \<Rightarrow> bot \<times> string option" where
  "messageArrival chatId msgText b =
     (case msgText of
        None \<Rightarrow> (send chatId AskForText b, None)
      | Some t \<Rightarrow>
          if prefix ''/'' t then (b, None)
          else if t = [] \<or> length (trim t) = 0 then (send chatId AskForText b, None)
          else (b\<lparr>outbox := outbox b @ [SendChatAction chatId]\<rparr>, Some t))"

text \<open>
  The rest of the callback, once the typing indicator has been sent: the \<open>try\<close> block
  with \<open>getOrCreateSession\<close>, \<open>runJob\<close> and the replies, here with \<open>graph.invoke\<close>
  settling at once. \<open>runJob\<close> mutates the session's store in place: the store at the
  session's address is replaced by the store after the job. Sending the replies is taken
  to succeed.
\<close>

definition messageJob :: "graph \<Rightarrow> int \<Rightarrow> string \<Rightarrow> bot \<Rightarrow> bot" where
  "messageJob graph chatId t b =
     (let (session, b2) = getOrCreateSession chatId b;
          out = tgRunJob t graph (stores b2 (storeRef session)) chatId;
          b3 = b2\<lparr>stores := (stores b2)(storeRef session := store out),
                  jobsStarted := Suc (jobsStarted b2)\<rparr>
      in case returned out of
           Inr response \<Rightarrow>
             b3\<lparr>outbox := outbox b3
                 @ map (\<lambda>part. SendMessage chatId (Response part)) (responseMessages response)\<rparr>
         | Inl e \<Rightarrow> send chatId (ErrorReply (message e)) b3)"

text \<open>The whole \<open>message\<close> callback as the source writes it, when nothing else happens
  between its start and its end.\<close>

definition onMessage :: "graph \<Rightarrow> int \<Rightarrow> string option \<Rightarrow> bot \<Rightarrow> bot" where
  "onMessage graph chatId msgText b =
     (case msgText of
        None \<Rightarrow> send chatId AskForText b
      | Some t \<Rightarrow>
          if prefix ''/'' t then b
          else if t = [] \<or> length (trim t) = 0 then send chatId AskForText b
          else
            (let b1 = b\<lparr>outbox := outbox b @ [SendChatAction chatId]\<rparr>;
                 (session, b2) = getOrCreateSession chatId b1;
                 out = tgRunJob t graph (stores b2 (storeRef session)) chatId;
                 b3 = b2\<lparr>stores := (stores b2)(storeRef session := store out),
                         jobsStarted := Suc (jobsStarted b2)\<rparr>
             in case returned out of
                  Inr response \<Rightarrow>
                    b3\<lparr>outbox := outbox b3
                        @ map (\<lambda>part. SendMessage chatId (Response part)) (responseMessages response)\<rparr>
                | Inl e \<Rightarrow> send chatId (ErrorReply (message e)) b3))"

text \<open>
  Dispatch of one incoming message, as the bot library documents it: the \<open>message\<close>
  listener is called, and then, for a message with text, every \<open>onText\<close> callback whose
  pattern matches, in the order of registration. The patterns \<open>/\/start/\<close>, \<open>/\/help/\<close>,
  \<open>/\/clear|\/reset/\<close> and \<open>/\/memory|\/stats/\<close> have no anchors: they match a text that
  contains the word anywhere.
\<close>

definition matchesStart :: "string \<Rightarrow> bool" where
  "matchesStart t = sublist ''/start'' t"

definition matchesHelp :: "string \<Rightarrow> bool" where
  "matchesHelp t = sublist ''/help'' t"

definition matchesClear :: "string \<Rightarrow> bool" where
  "matchesClear t = (sublist ''/clear'' t \<or> sublist ''/reset'' t)"

definition matchesMemory :: "string \<Rightarrow> bool" where
  "matchesMemory t = (sublist ''/memory'' t \<or> sublist ''/stats'' t)"

definition onTextCallbacks :: "int \<Rightarrow> string \<Rightarrow> bot \<Rightarrow> bot" where
  "onTextCallbacks chatId t b =
     (let b1 = (if matchesStart t then onStart chatId b else b);
          b2 = (if matchesHelp t then onHelp chatId b1 else b1);
          b3 = (if matchesClear t then onClear chatId b2 else b2)
      in if matchesMemory t then onMemory chatId b3 else b3)"

text \<open>
  What happens when one message comes in, before anything is awaited: the \<open>message\<close>
  listener is called first and runs up to its first \<open>await\<close>, and the matching \<open>onText\<close>
  callbacks run next (each does all its work on the session before its own first
  \<open>await\<close>). The result is the state and, if the \<open>message\<close> callback now waits for the
  typing indicator, the text it holds.
\<close>

definition dispatch :: "int \<Rightarrow> string option \<Rightarrow> bot \<Rightarrow> bot \<times> string option" where
  "dispatch chatId msgText b =
     (let (b1, waiting) = messageArrival chatId msgText b;
          b2 = (case msgText of None \<Rightarrow> b1 | Some t \<Rightarrow> onTextCallbacks chatId t b1)
      in (b2, waiting))"

text \<open>
  One incoming message handled to its end before the next one arrives: the dispatch, and
  then the \<open>message\<close> callback, if it waits for the typing indicator, goes on with the
  job. Every send is taken to succeed.
\<close>

definition processUpdate :: "graph \<Rightarrow> int \<Rightarrow> string option \<Rightarrow> bot \<Rightarrow> bot" where
  "processUpdate graph chatId msgText b =
     (let (b2, waiting) = dispatch chatId msgText b
      in case waiting of None \<Rightarrow> b2 | Some t \<Rightarrow> messageJob graph chatId t b2)"

text \<open>A session's store as its owner sees it, and the messages its next job would hand to
  the planner.\<close>

definition storeOf :: "bot \<Rightarrow> int \<Rightarrow> MemoryStore option" where
  "storeOf b userId = map_option (\<lambda>session. stores b (storeRef session)) (sessions b userId)"

text \<open>The store a chat id works on once its session is resolved: its own, or a new one
  of capacity 50 when it has none yet.\<close>

definition resolved :: "MemoryStore option \<Rightarrow> MemoryStore" where
  "resolved own = (case own of None \<Rightarrow> newMemoryStore 50 | Some st \<Rightarrow> st)"

definition plannerInput :: "bot \<Rightarrow> int \<Rightarrow> string \<Rightarrow> message list" where
  "plannerInput b userId userText =
     getMessages (stores (snd (getOrCreateSession userId b))
                    (storeRef (fst (getOrCreateSession userId b))))
     @ [HumanMessage userText]"

text \<open>The heap is well formed when every session refers to an allocated address and no
  two chat ids share one.\<close>

definition wellFormed :: "bot \<Rightarrow> bool" where
  "wellFormed b =
     ((\<forall>userId session. sessions b userId = Some session \<longrightarrow> storeRef session < allocated b)
      \<and> (\<forall>u1 u2 s1 s2. sessions b u1 = Some s1 \<and> sessions b u2 = Some s2 \<and> storeRef s1 = storeRef s2
            \<longrightarrow> u1 = u2))"

text \<open>A run of the bot: incoming messages as pairs of chat id and text.\<close>

definition runUpdates :: "graph \<Rightarrow> (int \<times> string option) list \<Rightarrow> bot \<Rightarrow> bot" where
  "runUpdates graph updates b = fold (\<lambda>(chatId, msgText). processUpdate graph chatId msgText) updates b"

text \<open>The bot after chat 7 sent \<open>hi\<close> and got its answer.\<close>

definition afterOneJob :: bot where
  "afterOneJob = processUpdate answeringGraph 7 (Some ''hi'') botStart"

text \<open>Every store on the heap has capacity 50 and respects it.\<close>

definition boundedStores :: "bot \<Rightarrow> bool" where
  "boundedStores b =
     (\<forall>address. maxMessages (stores b address) = 50
                \<and> length (messages (stores b address)) \<le> 50)"

section \<open>Messages that arrive while a job is running\<close>

text \<open>
  The \<open>message\<close> callback awaits twice before a job is done: the typing indicator
  (\<open>sendChatAction\<close>) and, inside \<open>runJob\<close>, \<open>graph.invoke\<close>. The event emitter does not
  wait for the callback, so while one call is suspended the bot can receive the next
  message and call the callback again. The callback is therefore taken in its three
  parts. \<open>arrive\<close> is the dispatch of one incoming message: the first part of the
  \<open>message\<close> callback and then the matching \<open>onText\<close> callbacks. \<open>typingSettled\<close> is the
  callback going on after \<open>sendChatAction\<close>, up to the call of \<open>graph.invoke\<close>.
  \<open>completeJob\<close> is everything after \<open>graph.invoke\<close> has settled. A callback waiting for
  the typing indicator has only the chat id and the text; a job that waits for
  \<open>graph.invoke\<close> is in flight and keeps what its closure captured: the session, the
  history length \<open>previousCount\<close> and the graph's input \<open>initial\<close>.
\<close>

record waiting_callback =
  waitChat :: int
  waitText :: string

record pending_job =
  jobChat :: int
  jobText :: string
  jobSession :: UserSession
  capturedCount :: nat
  capturedInput :: "message list"

record async_bot =
  botState :: bot
  awaitingTyping :: "waiting_callback list"
  inFlight :: "pending_job list"

definition asyncStart :: async_bot where
  "asyncStart = \<lparr>botState = botStart, awaitingTyping = [], inFlight = []\<rparr>"

definition arrive :: "int \<Rightarrow> string option \<Rightarrow> async_bot \<Rightarrow> async_bot" where
  "arrive chatId msgText a =
     (let (b2, waiting) = dispatch chatId msgText (botState a)
      in a\<lparr>botState := b2,
           awaitingTyping := awaitingTyping a
             @ (case waiting of None \<Rightarrow> [] | Some t \<Rightarrow> [\<lparr>waitChat = chatId, waitText = t\<rparr>])\<rparr>)"

text \<open>The \<open>k\<close>-th waiting callback goes on. \<open>sendChatAction\<close> is awaited outside the
  \<open>try\<close> block: when it is rejected the callback ends there and no job starts. When it
  is fulfilled the session is resolved and \<open>runJob\<close> runs up to \<open>graph.invoke\<close>.\<close>

definition typingSettled :: "nat \<Rightarrow> bool \<Rightarrow> async_bot \<Rightarrow> async_bot" where
  "typingSettled k fulfilled a =
     (if length (awaitingTyping a) \<le> k then a
      else
        (let w = awaitingTyping a ! k;
             others = take k (awaitingTyping a) @ drop (Suc k) (awaitingTyping a)
         in if \<not> fulfilled then a\<lparr>awaitingTyping := others\<rparr>
            else
              (let (session, b2) = getOrCreateSession (waitChat w) (botState a);
                   previousMessages = getMessages (stores b2 (storeRef session));
                   previousCount = length previousMessages;
                   userMessage = HumanMessage (waitText w);
                   initial = previousMessages @ [userMessage]
               in a\<lparr>botState := b2\<lparr>jobsStarted := Suc (jobsStarted b2)\<rparr>,
                    awaitingTyping := others,
                    inFlight := inFlight a
                      @ [\<lparr>jobChat = waitChat w, jobText = waitText w, jobSession = session,
                          capturedCount = previousCount, capturedInput = initial\<rparr>]\<rparr>)))"

text \<open>The rest of the callback for the \<open>k\<close>-th job in flight, once \<open>graph.invoke\<close> has
  thrown or returned \<open>result.messages\<close>.\<close>

definition completeJob :: "nat \<Rightarrow> error + message list \<Rightarrow> async_bot \<Rightarrow> async_bot" where
  "completeJob k settled a =
     (if length (inFlight a) \<le> k then a
      else
        (let job = inFlight a ! k;
             b = botState a;
             others = take k (inFlight a) @ drop (Suc k) (inFlight a);
             address = storeRef (jobSession job)
         in case settled of
              Inl e \<Rightarrow>
                a\<lparr>botState := send (jobChat job) (ErrorReply (message e)) b, inFlight := others\<rparr>
            | Inr result \<Rightarrow>
                (let newMessages = drop (capturedCount job) result;
                     b3 = b\<lparr>stores := (stores b)
                            (address := (if length newMessages > 0
                                         then addMessages newMessages (stores b address)
                                         else stores b address))\<rparr>;
                     finalMsg = (if result = [] then None else Some (last result));
                     response = (case finalMsg of None \<Rightarrow> [] | Some m \<Rightarrow> content m)
                 in a\<lparr>botState := b3\<lparr>outbox := outbox b3
                        @ map (\<lambda>part. SendMessage (jobChat job) (Response part))
                            (responseMessages response)\<rparr>,
                      inFlight := others\<rparr>)))"

definition jobsInFlight :: "async_bot \<Rightarrow> int \<Rightarrow> nat" where
  "jobsInFlight a chatId = length (filter (\<lambda>job. jobChat job = chatId) (inFlight a))"

text \<open>Chat 7 sends \<open>first\<close>, its typing indicator is sent and its job starts; before the
  job has finished chat 7 sends \<open>second\<close>, and again the typing indicator is sent.\<close>

definition twoMessages :: async_bot where
  "twoMessages =
     typingSettled 0 True (arrive 7 (Some ''second'')
       (typingSettled 0 True (arrive 7 (Some ''first'') asyncStart)))"

text \<open>With jobs in flight the state is well formed when the heap is and every job in
  flight holds the session registered for its chat id.\<close>

definition asyncWellFormed :: "async_bot \<Rightarrow> bool" where
  "asyncWellFormed a =
     (wellFormed (botState a)
      \<and> (\<forall>job \<in> set (inFlight a). sessions (botState a) (jobChat job) = Some (jobSession job)))"

section \<open>The memory bound\<close>

lemma addMessages_lastTurns:
  "messages (addMessages turns st) = lastTurns (maxMessages st) (messages st @ turns)"
  by (simp add: addMessages_def lastTurns_def Let_def)

lemma addMessages_maxMessages [simp]: "maxMessages (addMessages turns st) = maxMessages st"
  by (simp add: addMessages_def Let_def)

lemma clear_maxMessages [simp]: "maxMessages (clear st) = maxMessages st"
  by (simp add: clear_def)

lemma applyOp_maxMessages [simp]: "maxMessages (applyOp op st) = maxMessages st"
  by (cases op) simp_all

lemma lastTurns_append: "lastTurns n (lastTurns n h @ ts) = lastTurns n (h @ ts)"
proof (cases "length h \<le> n")
  case True
  then show ?thesis by (simp add: lastTurns_def)
next
  case False
  then have "length h + length ts - (length h - n + n) + (length h - n) = length h + length ts - n"
    by arith
  with False show ?thesis by (simp add: lastTurns_def)
qed

lemma length_lastTurns: "length (lastTurns n h) \<le> n"
  by (simp add: lastTurns_def)

lemma suffix_lastTurns: "suffix (lastTurns n h) h"
  by (simp add: lastTurns_def suffix_drop)

lemma fold_applyOp_maxMessages [simp]: "maxMessages (fold applyOp ops st) = maxMessages st"
  by (induction ops arbitrary: st) simp_all

lemma fold_applyOp_messages:
  "messages st = lastTurns (maxMessages st) h \<Longrightarrow>
   messages (fold applyOp ops st) = lastTurns (maxMessages st) (sinceClear h ops)"
proof (induction ops arbitrary: st h)
  case Nil
  then show ?case by simp
next
  case (Cons op ops)
  show ?case
  proof (cases op)
    case (Append turns)
    have "messages (addMessages turns st) = lastTurns (maxMessages (addMessages turns st)) (h @ turns)"
      using Cons.prems by (simp add: addMessages_lastTurns lastTurns_append)
    from Cons.IH [OF this] show ?thesis using Append by simp
  next
    case Clear
    have "messages (clear st) = lastTurns (maxMessages (clear st)) []"
      by (simp add: clear_def lastTurns_def)
    from Cons.IH [OF this] show ?thesis using Clear by simp
  qed
qed

lemma suffix_sinceClear: "suffix (sinceClear h ops) (h @ everAppended ops)"
proof (induction h ops rule: sinceClear.induct)
  case (1 h)
  then show ?case by simp
next
  case (2 h turns ops)
  then show ?case by simp
next
  case (3 h ops)
  have "suffix (everAppended ops) (h @ everAppended ops)"
    by (rule suffixI) simp
  with 3 show ?case by (auto intro: suffix_order.trans)
qed

lemma addMessages_bounded: "length (messages (addMessages turns st)) \<le> maxMessages st"
  by (simp add: addMessages_lastTurns length_lastTurns)

lemma addMessages_Nil:
  "length (messages st) \<le> maxMessages st \<Longrightarrow> addMessages [] st = st"
  by (simp add: addMessages_def)

text \<open>
  The scenario of the specification: capacity 3, two jobs of two turns each. The fourth
  turn evicts the first.
\<close>

lemma capacity_three_scenario:
  "getMessages (addMessages [Message Human ''u2'', Message Assistant ''a2'']
      (addMessages [Message Human ''u1'', Message Assistant ''a1''] (newMemoryStore 3)))
   = [Message Assistant ''a1'', Message Human ''u2'', Message Assistant ''a2'']"
  by (simp add: addMessages_def newMemoryStore_def getMessages_def)

section \<open>The job runner: what is appended and what is returned\<close>

lemma tgRunJob_eq_runJob: "tgRunJob userText graph st chatId = runJob userText graph st"
  by (simp add: tgRunJob_def runJob_def)

lemma runJob_store_calls:
  "store (runJob userText graph st) = fold addMessages (appendCalls (runJob userText graph st)) st"
  by (simp add: runJob_def Let_def split: sum.splits)

lemma runJob_maxMessages [simp]: "maxMessages (store (runJob userText graph st)) = maxMessages st"
  by (simp add: runJob_def Let_def split: sum.splits)

lemma runJob_bounded:
  "length (messages st) \<le> maxMessages st \<Longrightarrow>
   length (messages (store (runJob userText graph st))) \<le> maxMessages st"
  by (simp add: runJob_def Let_def addMessages_bounded split: sum.splits)

text \<open>
  C4 (delta and return value). When the graph returns \<open>result\<close>, the turns handed to
  \<open>addMessages\<close> are exactly \<open>result\<close> from index \<open>N\<close> on, where \<open>N\<close> is the number of
  stored turns before the job (the call is skipped when that slice is empty), the store
  after the job is the store before it with that slice appended, and the job returns the
  content of the last turn of \<open>result\<close>, or the empty string when \<open>result\<close> has none.
  When \<open>result\<close> is the prior history followed by the turns produced in the job, the
  slice is exactly the produced turns. The Telegram job runner does the same.
\<close>

theorem runJob_appends_delta:
  assumes "graph 60 (getMessages st @ [HumanMessage userText]) = Inr result"
  shows "concat (appendCalls (runJob userText graph st)) = drop (length (getMessages st)) result
    \<and> store (runJob userText graph st) = fold addMessages (appendCalls (runJob userText graph st)) st
    \<and> (length (messages st) \<le> maxMessages st \<longrightarrow>
         store (runJob userText graph st) = addMessages (drop (length (getMessages st)) result) st)
    \<and> (\<forall>produced. result = getMessages st @ produced \<longrightarrow>
         concat (appendCalls (runJob userText graph st)) = produced)
    \<and> returned (runJob userText graph st) = Inr (if result = [] then [] else content (last result))
    \<and> tgRunJob userText graph st chatId = runJob userText graph st"
proof -
  let ?n = "length (getMessages st)"
  have calls: "appendCalls (runJob userText graph st) = (if drop ?n result = [] then [] else [drop ?n result])"
    using assms by (simp add: runJob_def Let_def)
  have c1: "concat (appendCalls (runJob userText graph st)) = drop ?n result"
    by (simp add: calls)
  have c3: "store (runJob userText graph st) = addMessages (drop ?n result) st"
    if "length (messages st) \<le> maxMessages st"
    using that by (simp add: runJob_store_calls calls addMessages_Nil)
  have c4: "concat (appendCalls (runJob userText graph st)) = produced"
    if "result = getMessages st @ produced" for produced
    using that by (simp add: c1)
  have c5: "returned (runJob userText graph st) = Inr (if result = [] then [] else content (last result))"
    using assms by (simp add: runJob_def Let_def)
  show ?thesis
    using c1 c3 c4 c5 by (simp add: runJob_store_calls tgRunJob_eq_runJob)
qed

theorem runJob_appends_delta_witness:
  "answeringGraph 60 (getMessages (newMemoryStore 50) @ [HumanMessage ''hi''])
     = Inr [Message Human ''hi'', Message Assistant ''ok'']
   \<and> concat (appendCalls (runJob ''hi'' answeringGraph (newMemoryStore 50)))
     = [Message Human ''hi'', Message Assistant ''ok'']
   \<and> returned (runJob ''hi'' answeringGraph (newMemoryStore 50)) = Inr ''ok''"
proof -
  have run: "answeringGraph 60 (getMessages (newMemoryStore 50) @ [HumanMessage ''hi''])
     = Inr [Message Human ''hi'', Message Assistant ''ok'']"
    by (simp add: answeringGraph_def getMessages_def newMemoryStore_def HumanMessage_def)
  show ?thesis
    using runJob_appends_delta [where graph = answeringGraph and st = "newMemoryStore 50"
        and userText = "''hi''" and chatId = 0, OF run] run
    by (simp add: getMessages_def newMemoryStore_def)
qed

text \<open>What a job leaves behind, case by case: the append call is made when the returned
  sequence is longer than the history stored before the job.\<close>

lemma runJob_outcome:
  "(case graph 60 (getMessages st @ [HumanMessage userText]) of
      Inr result \<Rightarrow>
        returned (runJob userText graph st)
          = Inr (if result = [] then [] else content (last result))
        \<and> appendCalls (runJob userText graph st)
          = (if length (getMessages st) < length result
             then [drop (length (getMessages st)) result] else [])
        \<and> store (runJob userText graph st)
          = (if length (getMessages st) < length result
             then addMessages (drop (length (getMessages st)) result) st else st)
    | Inl e \<Rightarrow>
        returned (runJob userText graph st) = Inl e
        \<and> appendCalls (runJob userText graph st) = []
        \<and> store (runJob userText graph st) = st)"
  by (auto simp: runJob_def Let_def split: sum.splits)

lemma onLine_store_local:
  "memoryStore c = memoryStore c'
   \<Longrightarrow> memoryStore (onLine graph line c) = memoryStore (onLine graph line c')"
  by (simp add: onLine_def Let_def split: sum.splits)

section \<open>The step limit\<close>

declare stepLoop.simps [simp del]

lemma recorded_snoc:
  assumes "recorded plan reg initial cycles"
    and "plan (length cycles) (initial @ concat (map observed cycles)) = Inr (ToolRequests requests)"
  shows "recorded plan reg initial
           (cycles @ [\<lparr>requested = requests, observed = map (observe reg) requests\<rparr>])"
  unfolding recorded_def
proof (intro allI impI)
  fix i
  let ?new = "\<lparr>requested = requests, observed = map (observe reg) requests\<rparr>"
  assume "i < length (cycles @ [?new])"
  then consider "i < length cycles" | "i = length cycles"
    by fastforce
  then show "plan i (initial @ concat (map observed (take i (cycles @ [?new]))))
          = Inr (ToolRequests (requested ((cycles @ [?new]) ! i)))
        \<and> observed ((cycles @ [?new]) ! i) = map (observe reg) (requested ((cycles @ [?new]) ! i))"
  proof cases
    case 1
    with assms(1) show ?thesis
      by (simp add: recorded_def nth_append)
  next
    case 2
    with assms(2) show ?thesis
      by (simp add: nth_append)
  qed
qed

text \<open>With a planner that never answers, the loop runs up to the limit; what it returns is
  its input followed by the observations of the recorded cycles, one cycle per step of the
  counter.\<close>

lemma stepLoop_never_final:
  assumes "\<forall>i ms. \<exists>requests. plan i ms = Inr (ToolRequests requests)"
    and "counter \<le> stepLimit"
    and "length cycles = counter"
    and "turns = initial @ concat (map observed cycles)"
    and "recorded plan reg initial cycles"
  shows "\<exists>turns' cycles'.
           stepLoop plan reg stepLimit counter cycles turns = Inr (turns', stepLimit, cycles')
           \<and> length cycles' = stepLimit
           \<and> turns' = initial @ concat (map observed cycles')
           \<and> recorded plan reg initial cycles'"
  using assms
proof (induction plan reg stepLimit counter cycles turns rule: stepLoop.induct)
  case (1 plan reg stepLimit counter cycles turns)
  note never = "1.prems"(1)
  show ?case
  proof (cases "stepLimit \<le> counter")
    case True
    then have "stepLoop plan reg stepLimit counter cycles turns = Inr (turns, counter, cycles)"
      by (subst stepLoop.simps) simp
    moreover from True "1.prems" have "counter = stepLimit" by simp
    ultimately show ?thesis
      using "1.prems" by simp
  next
    case False
    from never obtain requests where think: "plan counter turns = Inr (ToolRequests requests)"
      by blast
    let ?results = "map (observe reg) requests"
    let ?cycles = "cycles @ [\<lparr>requested = requests, observed = ?results\<rparr>]"
    have bound: "Suc counter \<le> stepLimit"
      using False by simp
    have len: "length ?cycles = Suc counter"
      using "1.prems"(3) by simp
    have turns: "turns @ ?results = initial @ concat (map observed ?cycles)"
      using "1.prems"(4) by simp
    have rec: "recorded plan reg initial ?cycles"
      using "1.prems"(3,4,5) think by (intro recorded_snoc) simp_all
    from "1.IH" [OF False think refl refl never bound len turns rec]
    obtain turns' cycles' where
      "stepLoop plan reg stepLimit (Suc counter) ?cycles (turns @ ?results)
         = Inr (turns', stepLimit, cycles')"
      "length cycles' = stepLimit"
      "turns' = initial @ concat (map observed cycles')"
      "recorded plan reg initial cycles'"
      by blast
    with False think show ?thesis
      by (simp add: stepLoop.simps [of plan reg stepLimit counter cycles turns] Let_def)
  qed
qed

text \<open>Whenever the loop returns, what it returns extends its input.\<close>

lemma stepLoop_extends:
  "stepLoop plan reg stepLimit counter cycles turns = Inr (turns', counter', cycles')
   \<Longrightarrow> prefix turns turns'"
proof (induction plan reg stepLimit counter cycles turns rule: stepLoop.induct)
  case (1 plan reg stepLimit counter cycles turns)
  show ?case
  proof (cases "stepLimit \<le> counter")
    case True
    with "1.prems" show ?thesis
      by (simp add: stepLoop.simps [of plan reg stepLimit counter cycles turns])
  next
    case False
    show ?thesis
    proof (cases "plan counter turns")
      case (Inl e)
      with False "1.prems" show ?thesis
        by (simp add: stepLoop.simps [of plan reg stepLimit counter cycles turns])
    next
      case (Inr response)
      show ?thesis
      proof (cases response)
        case (FinalText answer)
        with False Inr "1.prems" show ?thesis
          by (auto simp: stepLoop.simps [of plan reg stepLimit counter cycles turns])
      next
        case (ToolRequests requests)
        with False Inr "1.prems"
        have "stepLoop plan reg stepLimit (Suc counter)
                (cycles @ [\<lparr>requested = requests, observed = map (observe reg) requests\<rparr>])
                (turns @ map (observe reg) requests) = Inr (turns', counter', cycles')"
          by (simp add: stepLoop.simps [of plan reg stepLimit counter cycles turns] Let_def)
        from "1.IH" [OF False Inr ToolRequests refl this]
        show ?thesis by (rule append_prefixD)
      qed
    qed
  qed
qed

lemma stepLoopGraph_extends:
  "stepLoopGraph plan reg stepLimit initial = Inr result \<Longrightarrow> prefix initial result"
  by (auto simp: stepLoopGraph_def split: sum.splits dest: stepLoop_extends)

text \<open>
  C1 (step limit). Whatever the planner is shown, if every one of its responses asks for
  tools and none is a final answer, the Step-Loop started with the limit 60 stops after
  exactly 60 cycles and returns normally. The 60 cycles are recorded: in cycle \<open>i\<close> the
  planner was asked, with the job's input followed by the observations of the cycles
  before, and returned that cycle's requests, and each request was observed through the
  registry. The turn sequence returned is the job's input followed by the observations
  of exactly these 60 cycles, and the job run through the loop returns the content of
  its last turn.
\<close>

theorem step_limit_terminates:
  assumes "\<forall>i ms. \<exists>requests. plan i ms = Inr (ToolRequests requests)"
  shows "\<exists>turns cycles.
      stepLoop plan reg 60 0 [] (getMessages st @ [HumanMessage userText]) = Inr (turns, 60, cycles)
    \<and> length cycles = 60
    \<and> (\<forall>i < 60.
          plan i ((getMessages st @ [HumanMessage userText]) @ concat (map observed (take i cycles)))
            = Inr (ToolRequests (requested (cycles ! i)))
          \<and> observed (cycles ! i) = map (observe reg) (requested (cycles ! i)))
    \<and> turns = (getMessages st @ [HumanMessage userText]) @ concat (map observed cycles)
    \<and> prefix (getMessages st @ [HumanMessage userText]) turns
    \<and> returned (runJob userText (stepLoopGraph plan reg) st) = Inr (content (last turns))"
proof -
  let ?initial = "getMessages st @ [HumanMessage userText]"
  have start: "recorded plan reg ?initial []"
    by (simp add: recorded_def)
  from stepLoop_never_final [OF assms, of 0 60 "[]" ?initial ?initial reg] start
  obtain turns cycles where run: "stepLoop plan reg 60 0 [] ?initial = Inr (turns, 60, cycles)"
    and len: "length cycles = 60"
    and turns: "turns = ?initial @ concat (map observed cycles)"
    and rec: "recorded plan reg ?initial cycles"
    by auto
  from turns have grows: "prefix ?initial turns"
    by simp
  then have "turns \<noteq> []"
    by (auto simp: prefix_def)
  with run have job: "returned (runJob userText (stepLoopGraph plan reg) st) = Inr (content (last turns))"
    by (simp add: runJob_def stepLoopGraph_def Let_def)
  from rec len have each: "\<forall>i < 60.
          plan i (?initial @ concat (map observed (take i cycles)))
            = Inr (ToolRequests (requested (cycles ! i)))
          \<and> observed (cycles ! i) = map (observe reg) (requested (cycles ! i))"
    by (simp add: recorded_def)
  from run len each turns grows job show ?thesis
    by blast
qed

theorem step_limit_terminates_witness:
  "(\<forall>i ms. \<exists>requests. restlessPlanner i ms = Inr (ToolRequests requests))
   \<and> (\<exists>turns cycles.
         stepLoop restlessPlanner oneToolRegistry 60 0 []
           (getMessages (newMemoryStore 50) @ [HumanMessage ''hi'']) = Inr (turns, 60, cycles)
       \<and> length cycles = 60
       \<and> turns = (getMessages (newMemoryStore 50) @ [HumanMessage ''hi''])
                   @ concat (map observed cycles)
       \<and> returned (runJob ''hi'' (stepLoopGraph restlessPlanner oneToolRegistry) (newMemoryStore 50))
           = Inr (content (last turns)))"
proof -
  have restless: "\<forall>i ms. \<exists>requests. restlessPlanner i ms = Inr (ToolRequests requests)"
    by (simp add: restlessPlanner_def)
  from step_limit_terminates [OF restless, of oneToolRegistry "newMemoryStore 50" "''hi''"] restless
  show ?thesis by blast
qed

section \<open>One append for a successful job, none for a failed one\<close>

text \<open>
  C5 (append calls). A job is successful when the graph returns; what the graph returns
  holds the turns it was given, the stored history and the new user turn, followed by
  what the job produced. Such a job makes exactly one append call, with the turns from
  the new user turn on, and the store afterwards is the store before with these
  appended. A job whose graph throws rethrows the error, makes no append call and leaves
  the store exactly as it was; the command-line handler then prints the error's message
  and keeps the store, so that the next line is handled as if the failed job had not
  been run. With the Step-Loop as the graph, every job that returns has made exactly one
  append call and every job that throws none.
\<close>

theorem successful_job_appends_once:
  "(\<forall>result. graph 60 (getMessages st @ [HumanMessage userText]) = Inr result
        \<and> prefix (getMessages st @ [HumanMessage userText]) result \<longrightarrow>
        appendCalls (runJob userText graph st) = [drop (length (getMessages st)) result]
      \<and> length (appendCalls (runJob userText graph st)) = 1
      \<and> store (runJob userText graph st) = addMessages (drop (length (getMessages st)) result) st
      \<and> returned (runJob userText graph st) = Inr (content (last result)))
   \<and> (\<forall>e. graph 60 (getMessages st @ [HumanMessage userText]) = Inl e \<longrightarrow>
        returned (runJob userText graph st) = Inl e
      \<and> appendCalls (runJob userText graph st) = []
      \<and> store (runJob userText graph st) = st
      \<and> (trim line = userText \<and> userText \<notin> {[], ''/clear'', ''/reset'', ''/memory'', ''/stats''}
            \<and> memoryStore c = st \<longrightarrow>
            memoryStore (onLine graph line c) = st
          \<and> printed (onLine graph line c) = printed c @ [JobError (message e)]
          \<and> memoryStore (onLine graph nextLine (onLine graph line c))
              = memoryStore (onLine graph nextLine c)))
   \<and> (case returned (runJob userText (stepLoopGraph plan reg) st) of
        Inr answer \<Rightarrow> length (appendCalls (runJob userText (stepLoopGraph plan reg) st)) = 1
      | Inl e \<Rightarrow>
          appendCalls (runJob userText (stepLoopGraph plan reg) st) = []
          \<and> store (runJob userText (stepLoopGraph plan reg) st) = st)"
proof -
  let ?initial = "getMessages st @ [HumanMessage userText]"
  have longer: "length (getMessages st) < length result \<and> result \<noteq> []"
    if "prefix ?initial result" for result
    using that by (auto simp: prefix_def)
  have success: "appendCalls (runJob userText g st) = [drop (length (getMessages st)) result]
      \<and> length (appendCalls (runJob userText g st)) = 1
      \<and> store (runJob userText g st) = addMessages (drop (length (getMessages st)) result) st
      \<and> returned (runJob userText g st) = Inr (content (last result))"
    if "g 60 ?initial = Inr result" and "prefix ?initial result" for g result
    using runJob_outcome [where graph = g and st = st and userText = userText] that(1)
      longer [OF that(2)] by simp
  have failure: "returned (runJob userText graph st) = Inl e
      \<and> appendCalls (runJob userText graph st) = []
      \<and> store (runJob userText graph st) = st"
    if "graph 60 ?initial = Inl e" for e
    using runJob_outcome [where graph = graph and st = st and userText = userText] that by simp
  have cli: "memoryStore (onLine graph line c) = st
      \<and> printed (onLine graph line c) = printed c @ [JobError (message e)]
      \<and> memoryStore (onLine graph nextLine (onLine graph line c))
          = memoryStore (onLine graph nextLine c)"
    if "graph 60 ?initial = Inl e" and "trim line = userText"
      and "userText \<notin> {[], ''/clear'', ''/reset'', ''/memory'', ''/stats''}"
      and "memoryStore c = st" for e
  proof -
    from that failure [OF that(1)]
    have same: "memoryStore (onLine graph line c) = st"
      and shown: "printed (onLine graph line c) = printed c @ [JobError (message e)]"
      by (simp_all add: onLine_def Let_def)
    from same that(4) have "memoryStore (onLine graph line c) = memoryStore c"
      by simp
    then have "memoryStore (onLine graph nextLine (onLine graph line c))
        = memoryStore (onLine graph nextLine c)"
      by (rule onLine_store_local)
    with same shown show ?thesis by simp
  qed
  have loop: "(case returned (runJob userText (stepLoopGraph plan reg) st) of
        Inr answer \<Rightarrow> length (appendCalls (runJob userText (stepLoopGraph plan reg) st)) = 1
      | Inl e \<Rightarrow>
          appendCalls (runJob userText (stepLoopGraph plan reg) st) = []
          \<and> store (runJob userText (stepLoopGraph plan reg) st) = st)"
  proof (cases "stepLoopGraph plan reg 60 ?initial")
    case (Inl e)
    with runJob_outcome [where graph = "stepLoopGraph plan reg" and st = st
        and userText = userText] show ?thesis
      by simp
  next
    case (Inr result)
    then have "prefix ?initial result"
      by (rule stepLoopGraph_extends)
    from success [of "stepLoopGraph plan reg" result, OF Inr this] show ?thesis
      by simp
  qed
  from success [of graph] failure cli loop show ?thesis
    by blast
qed

theorem successful_job_appends_once_witness:
  "answeringGraph 60 (getMessages (newMemoryStore 50) @ [HumanMessage ''hi''])
     = Inr [Message Human ''hi'', Message Assistant ''ok'']
   \<and> prefix (getMessages (newMemoryStore 50) @ [HumanMessage ''hi''])
        [Message Human ''hi'', Message Assistant ''ok'']
   \<and> appendCalls (runJob ''hi'' answeringGraph (newMemoryStore 50))
       = [[Message Human ''hi'', Message Assistant ''ok'']]
   \<and> failingGraph 60 (getMessages (newMemoryStore 50) @ [HumanMessage ''hi''])
       = Inl (Error ''planner unavailable'')
   \<and> trim ''hi'' = ''hi''
   \<and> appendCalls (runJob ''hi'' failingGraph (newMemoryStore 50)) = []
   \<and> store (runJob ''hi'' failingGraph (newMemoryStore 50)) = newMemoryStore 50
   \<and> memoryStore (onLine failingGraph ''hi'' cliStart) = newMemoryStore 50
   \<and> printed (onLine failingGraph ''hi'' cliStart) = [JobError ''planner unavailable'']"
proof -
  have answers: "answeringGraph 60 (getMessages (newMemoryStore 50) @ [HumanMessage ''hi''])
     = Inr [Message Human ''hi'', Message Assistant ''ok'']"
    by (simp add: answeringGraph_def getMessages_def newMemoryStore_def HumanMessage_def)
  have extends: "prefix (getMessages (newMemoryStore 50) @ [HumanMessage ''hi''])
        [Message Human ''hi'', Message Assistant ''ok'']"
    by (simp add: getMessages_def newMemoryStore_def HumanMessage_def)
  have fails: "failingGraph 60 (getMessages (newMemoryStore 50) @ [HumanMessage ''hi''])
     = Inl (Error ''planner unavailable'')"
    by (simp add: failingGraph_def)
  have line: "trim ''hi'' = ''hi''"
    by (simp add: trim_def isWhiteSpace_def)
  have answered: "appendCalls (runJob ''hi'' answeringGraph (newMemoryStore 50))
       = [[Message Human ''hi'', Message Assistant ''ok'']]"
    using successful_job_appends_once [where graph = answeringGraph and st = "newMemoryStore 50"
        and userText = "''hi''"] answers extends
    by (simp add: getMessages_def newMemoryStore_def)
  have failed: "appendCalls (runJob ''hi'' failingGraph (newMemoryStore 50)) = []
      \<and> store (runJob ''hi'' failingGraph (newMemoryStore 50)) = newMemoryStore 50
      \<and> memoryStore (onLine failingGraph ''hi'' cliStart) = newMemoryStore 50
      \<and> printed (onLine failingGraph ''hi'' cliStart) = [JobError ''planner unavailable'']"
    using successful_job_appends_once [where graph = failingGraph and st = "newMemoryStore 50"
        and userText = "''hi''" and line = "''hi''" and c = cliStart] fails line
    by (simp add: cliStart_def)
  from answers extends fails line answered failed show ?thesis by simp
qed

section \<open>The required credential\<close>

lemma createLLM_throws_iff:
  "(\<exists>e. createLLM environment = Inl e)
   \<longleftrightarrow> environment ''OPENAI_API_KEY'' = None \<or> environment ''OPENAI_API_KEY'' = Some []"
  by (auto simp: createLLM_def truthy_def Let_def split: option.splits)

text \<open>
  C9 (start-up credential). With \<open>OPENAI_API_KEY\<close> unset, \<open>createLLM\<close> throws an error
  whose message says that the key is required and how to provide it (a \<open>.env\<close> file or an
  environment variable), \<open>main\<close> throws it in either mode before any handler is
  registered, and the process exits with code 1. With the key set to a non-empty value,
  \<open>createLLM\<close> returns the model and the process ends up listening. (A key set to the
  empty string is treated like an unset one.)
\<close>

theorem credential_gate:
  "(environment ''OPENAI_API_KEY'' = None \<longrightarrow>
       createLLM environment = Inl (Error (requiredLine @ dotenvLine @ exportLines))
     \<and> main environment = Inl (Error (requiredLine @ dotenvLine @ exportLines))
     \<and> startProcess environment = Exited 1 (requiredLine @ dotenvLine @ exportLines)
     \<and> sublist dotenvLine (requiredLine @ dotenvLine @ exportLines)
     \<and> sublist exportLines (requiredLine @ dotenvLine @ exportLines))
   \<and> (\<forall>key. environment ''OPENAI_API_KEY'' = Some key \<and> key \<noteq> [] \<longrightarrow>
         createLLM environment = Inr (ChatOpenAI ''gpt-4o'')
       \<and> (\<exists>m. main environment = Inr m \<and> startProcess environment = Listening m))
   \<and> (environment ''OPENAI_API_KEY'' = Some [] \<longrightarrow>
         createLLM environment = Inl (Error (requiredLine @ dotenvLine @ exportLines)))"
proof -
  have s1: "sublist dotenvLine (requiredLine @ dotenvLine @ exportLines)"
    by (rule sublist_appendI)
  have s2: "sublist exportLines (requiredLine @ dotenvLine @ exportLines)"
    using sublist_appendI [of exportLines "requiredLine @ dotenvLine" "[]"] by simp
  show ?thesis
    using s1 s2
    by (auto simp: createLLM_def main_def startProcess_def newTelegramBotHandler_def
        truthy_def Let_def)
qed

theorem credential_gate_witness:
  "createLLM Map.empty = Inl (Error (requiredLine @ dotenvLine @ exportLines))
   \<and> startProcess Map.empty = Exited 1 (requiredLine @ dotenvLine @ exportLines)
   \<and> createLLM [''OPENAI_API_KEY'' \<mapsto> ''sk-test''] = Inr (ChatOpenAI ''gpt-4o'')
   \<and> startProcess [''OPENAI_API_KEY'' \<mapsto> ''sk-test''] = Listening CliMode"
proof -
  have cli: "main [''OPENAI_API_KEY'' \<mapsto> ''sk-test''] = Inr CliMode"
    by (simp add: main_def createLLM_def truthy_def Let_def)
  show ?thesis
    using credential_gate [of Map.empty] credential_gate [of "[''OPENAI_API_KEY'' \<mapsto> ''sk-test'']"] cli
    by (simp add: startProcess_def)
qed

section \<open>Tool failures\<close>

text \<open>\<open>clickTool\<close> contains every failure of its page calls: once the page is there, it
  returns a string.\<close>

lemma clickTool_contains_failures:
  "ensure controller = Inr page \<Longrightarrow> \<exists>text. clickTool controller selector = Inr text"
  by (simp add: clickTool_def split: sum.splits)

text \<open>
  C2 (tool-error containment) asks that no tool lets an exception out. On a page where
  the selector does not match, \<open>browser_click\<close> returns an \<open>ERROR\<close> string, but
  \<open>browser_right_click\<close> throws Playwright's time-out error, and \<open>browser_goto\<close> throws
  when the navigation times out: neither has the \<open>try\<close> block that \<open>clickTool\<close> has.
\<close>

theorem right_click_and_goto_throw:
  "rightClickTool blankBrowser ''#missing'' = Inl (Error ''page.click: Timeout 15000ms exceeded.'')
   \<and> gotoTool blankBrowser ''https://example.com'' = Inl (Error ''page.goto: Timeout 30000ms exceeded.'')
   \<and> clickTool blankBrowser ''#missing''
       = Inr (''ERROR clicking #missing: page.waitForSelector: Timeout 10000ms exceeded.''
              @ ''. Try using browser_find_by_text to find the element by its text content, or browser_find_links to see all clickable links.'')"
  by (simp add: rightClickTool_def gotoTool_def clickTool_def clickAttempt_def
      blankBrowser_def blankPage_def)

section \<open>Chunks of a long reply\<close>

declare matchDotChunks.simps [simp del]

lemma dotRun_prefix: "prefix (dotRun limit s) s"
  unfolding dotRun_def
  by (metis append_take_drop_id prefixI prefix_order.trans takeWhile_dropWhile_id)

lemma dotRun_append_drop: "dotRun limit s @ drop (length (dotRun limit s)) s = s"
proof -
  from dotRun_prefix [of limit s] obtain zs where "s = dotRun limit s @ zs"
    by (auto simp: prefix_def)
  then have "drop (length (dotRun limit s)) s = zs"
    by (metis append_eq_conv_conj)
  with \<open>s = dotRun limit s @ zs\<close> show ?thesis by simp
qed

lemma dotRun_no_terminator: "filter (\<lambda>c. \<not> isLineTerminator c) (dotRun limit s) = dotRun limit s"
  unfolding dotRun_def
  by (rule filter_True) (auto dest: in_set_takeD set_takeWhileD)

lemma length_dotRun: "length (dotRun limit s) \<le> limit"
  by (simp add: dotRun_def)

text \<open>The chunks, put together, are the reply without its line terminators.\<close>

lemma concat_matchDotChunks:
  "0 < limit \<Longrightarrow> concat (matchDotChunks limit s) = filter (\<lambda>c. \<not> isLineTerminator c) s"
proof (induction limit s rule: matchDotChunks.induct)
  case (1 limit s)
  show ?case
  proof (cases "s = []")
    case True
    then show ?thesis by (simp add: matchDotChunks.simps [of limit "[]"])
  next
    case False
    note nonempty = this
    show ?thesis
    proof (cases "isLineTerminator (hd s)")
      case True
      with nonempty "1.prems" "1.IH"(1)
      have "concat (matchDotChunks limit (tl s)) = filter (\<lambda>c. \<not> isLineTerminator c) (tl s)"
        by simp
      moreover from True nonempty "1.prems"
      have "matchDotChunks limit s = matchDotChunks limit (tl s)"
        by (subst matchDotChunks.simps) simp
      moreover from True nonempty
      have "filter (\<lambda>c. \<not> isLineTerminator c) s = filter (\<lambda>c. \<not> isLineTerminator c) (tl s)"
        by (cases s) simp_all
      ultimately show ?thesis by simp
    next
      case False
      let ?run = "dotRun limit s"
      from False nonempty "1.prems" "1.IH"(2)
      have rest: "concat (matchDotChunks limit (drop (length ?run) s))
          = filter (\<lambda>c. \<not> isLineTerminator c) (drop (length ?run) s)"
        by simp
      have "filter (\<lambda>c. \<not> isLineTerminator c) s
          = filter (\<lambda>c. \<not> isLineTerminator c) (?run @ drop (length ?run) s)"
        by (simp only: dotRun_append_drop)
      also have "\<dots> = ?run @ filter (\<lambda>c. \<not> isLineTerminator c) (drop (length ?run) s)"
        by (simp add: dotRun_no_terminator)
      finally have "filter (\<lambda>c. \<not> isLineTerminator c) s
          = ?run @ concat (matchDotChunks limit (drop (length ?run) s))"
        by (simp add: rest)
      moreover from False nonempty "1.prems"
      have "matchDotChunks limit s = ?run # matchDotChunks limit (drop (length ?run) s)"
        by (subst matchDotChunks.simps) simp
      ultimately show ?thesis by simp
    qed
  qed
qed

lemma matchDotChunks_lengths:
  "chunk \<in> set (matchDotChunks limit s) \<Longrightarrow> length chunk \<le> limit"
proof (induction limit s rule: matchDotChunks.induct)
  case (1 limit s)
  then show ?case
    by (cases "s = [] \<or> limit = 0"; cases "isLineTerminator (hd s)")
       (auto simp: matchDotChunks.simps [of limit s] length_dotRun)
qed

text \<open>Every message sent for a long reply fits the platform's limit, marker included.\<close>

lemma responseMessages_fit:
  assumes "4096 < length response" and "sent \<in> set (responseMessages response)"
  shows "length sent \<le> 4096"
proof -
  from assms obtain i where i: "i < length (matchDotChunks 4000 response)"
    and sent: "sent = matchDotChunks 4000 response ! i
        @ (if i < length (matchDotChunks 4000 response) - 1 then continuedMarker else [])"
    by (auto simp: responseMessages_def Let_def)
  from i have "matchDotChunks 4000 response ! i \<in> set (matchDotChunks 4000 response)"
    by (rule nth_mem)
  then have "length (matchDotChunks 4000 response ! i) \<le> 4000"
    by (rule matchDotChunks_lengths)
  then show ?thesis
    by (simp add: sent continuedMarker_def)
qed

lemma dotRun_line:
  assumes "length run \<le> limit" and "\<forall>c \<in> set run. \<not> isLineTerminator c"
    and "rest = [] \<or> isLineTerminator (hd rest)"
  shows "dotRun limit (run @ rest) = run"
proof -
  from assms(3) have "takeWhile (\<lambda>c. \<not> isLineTerminator c) rest = []"
    by (cases rest) auto
  with assms(2) have "takeWhile (\<lambda>c. \<not> isLineTerminator c) (run @ rest) = run"
    by (simp add: takeWhile_append2)
  with assms(1) show ?thesis
    by (simp add: dotRun_def)
qed

lemma matchDotChunks_line:
  assumes "run \<noteq> []" and "length run \<le> limit" and "\<forall>c \<in> set run. \<not> isLineTerminator c"
    and "isLineTerminator t"
  shows "matchDotChunks limit (run @ t # rest) = run # matchDotChunks limit rest"
proof -
  from assms(1,2) have limit: "limit \<noteq> 0"
    by (cases run) auto
  from assms(1,3) have first: "\<not> isLineTerminator (hd (run @ t # rest))"
    by (cases run) auto
  have run: "dotRun limit (run @ t # rest) = run"
    using assms by (intro dotRun_line) simp_all
  have "matchDotChunks limit (run @ t # rest) = run # matchDotChunks limit (t # rest)"
    using limit first run by (subst matchDotChunks.simps) simp
  also have "matchDotChunks limit (t # rest) = matchDotChunks limit rest"
    using limit assms(4) by (subst matchDotChunks.simps) simp
  finally show ?thesis .
qed

lemma matchDotChunks_last:
  assumes "run \<noteq> []" and "length run \<le> limit" and "\<forall>c \<in> set run. \<not> isLineTerminator c"
  shows "matchDotChunks limit run = [run]"
proof -
  from assms(1,2) have limit: "limit \<noteq> 0"
    by (cases run) auto
  from assms(1,3) have first: "\<not> isLineTerminator (hd run)"
    by (cases run) auto
  have run: "dotRun limit run = run"
    using dotRun_line [of run limit "[]"] assms by simp
  have "matchDotChunks limit run = run # matchDotChunks limit []"
    using limit first run assms(1) by (subst matchDotChunks.simps) simp
  also have "matchDotChunks limit [] = []"
    by (subst matchDotChunks.simps) simp
  finally show ?thesis .
qed

text \<open>
  C8 (chunking) asks that the chunks, in order, give back the whole reply. For the
  two-line reply of 6001 units the handler sends two messages, the 3000 letters of the
  first line with the marker and the 3000 letters of the second line: the line feed
  between them is in neither, because the dot of the pattern does not match it. Each
  message fits the limit.
\<close>

theorem line_feed_lost_in_chunks:
  "length twoLineReply = 6001
   \<and> matchDotChunks 4000 twoLineReply = [replicate 3000 CHR ''a'', replicate 3000 CHR ''b'']
   \<and> responseMessages twoLineReply
       = [replicate 3000 CHR ''a'' @ continuedMarker, replicate 3000 CHR ''b'']
   \<and> concat (matchDotChunks 4000 twoLineReply) \<noteq> twoLineReply"
proof -
  have len: "length twoLineReply = 6001"
    by (simp add: twoLineReply_def)
  have "matchDotChunks 4000 twoLineReply
      = replicate 3000 CHR ''a'' # matchDotChunks 4000 (replicate 3000 CHR ''b'')"
    unfolding twoLineReply_def append_Cons append_Nil
    by (rule matchDotChunks_line) (simp_all add: isLineTerminator_def)
  also have "matchDotChunks 4000 (replicate 3000 CHR ''b'') = [replicate 3000 CHR ''b'']"
    by (rule matchDotChunks_last) (simp_all add: isLineTerminator_def)
  finally have chunks:
    "matchDotChunks 4000 twoLineReply = [replicate 3000 CHR ''a'', replicate 3000 CHR ''b'']" .
  have "[0 ..< 2] = [0, Suc 0]"
    by (simp add: upt_rec)
  then have sent: "responseMessages twoLineReply
      = [replicate 3000 CHR ''a'' @ continuedMarker, replicate 3000 CHR ''b'']"
    by (simp add: responseMessages_def len chunks)
  have "length (concat (matchDotChunks 4000 twoLineReply)) = 6000"
    by (simp add: chunks)
  with len have "concat (matchDotChunks 4000 twoLineReply) \<noteq> twoLineReply"
    by auto
  with len chunks sent show ?thesis by simp
qed

section \<open>Sessions\<close>

lemma getOrCreateSession_existing:
  "sessions b userId = Some session \<Longrightarrow> getOrCreateSession userId b = (session, b)"
  by (simp add: getOrCreateSession_def)

lemma getOrCreateSession_new:
  "sessions b userId = None \<Longrightarrow>
   getOrCreateSession userId b =
     (\<lparr>storeRef = allocated b\<rparr>,
      b\<lparr>stores := (stores b)(allocated b := newMemoryStore 50),
        allocated := Suc (allocated b),
        sessions := (sessions b)(userId \<mapsto> \<lparr>storeRef = allocated b\<rparr>)\<rparr>)"
  by (simp add: getOrCreateSession_def Let_def)

lemma getOrCreateSession_registered:
  "sessions (snd (getOrCreateSession userId b)) userId = Some (fst (getOrCreateSession userId b))"
  by (cases "sessions b userId") (simp_all add: getOrCreateSession_def Let_def)

lemma getOrCreateSession_idem:
  "getOrCreateSession userId (snd (getOrCreateSession userId b))
     = (fst (getOrCreateSession userId b), snd (getOrCreateSession userId b))"
  using getOrCreateSession_registered [of userId b]
  by (simp add: getOrCreateSession_existing)

lemma wellFormed_botStart: "wellFormed botStart"
  by (simp add: wellFormed_def botStart_def)

lemma wellFormed_getOrCreateSession:
  assumes "wellFormed b"
  shows "wellFormed (snd (getOrCreateSession userId b))"
proof (cases "sessions b userId")
  case None
  from assms have below: "\<And>u s. sessions b u = Some s \<Longrightarrow> storeRef s < allocated b"
    and inj: "\<And>u1 u2 s1 s2. sessions b u1 = Some s1 \<Longrightarrow> sessions b u2 = Some s2
        \<Longrightarrow> storeRef s1 = storeRef s2 \<Longrightarrow> u1 = u2"
    by (auto simp: wellFormed_def)
  show ?thesis
    unfolding getOrCreateSession_new [OF None] wellFormed_def
    by (auto dest: below inj simp: less_Suc_eq)
next
  case (Some session)
  with assms show ?thesis by (simp add: getOrCreateSession_existing)
qed

lemma storeOf_getOrCreateSession_other:
  assumes "wellFormed b" and "userId \<noteq> other"
  shows "storeOf (snd (getOrCreateSession userId b)) other = storeOf b other"
proof (cases "sessions b userId")
  case None
  from assms(1) have "\<And>s. sessions b other = Some s \<Longrightarrow> storeRef s < allocated b"
    unfolding wellFormed_def by blast
  then have "\<And>s. sessions b other = Some s \<Longrightarrow> storeRef s \<noteq> allocated b"
    by fastforce
  with assms(2) show ?thesis
    unfolding getOrCreateSession_new [OF None] storeOf_def
    by (cases "sessions b other") auto
next
  case (Some session)
  then show ?thesis by (simp add: getOrCreateSession_existing)
qed

lemma storeOf_getOrCreateSession_own:
  "storeOf (snd (getOrCreateSession userId b)) userId
     = Some (resolved (storeOf b userId))"
  by (cases "sessions b userId") (simp_all add: getOrCreateSession_def storeOf_def resolved_def Let_def)

lemma storeOf_write_other:
  assumes "wellFormed b" and "sessions b userId = Some session" and "userId \<noteq> other"
  shows "storeOf (b\<lparr>stores := (stores b)(storeRef session := st)\<rparr>) other = storeOf b other"
proof (cases "sessions b other")
  case None
  then show ?thesis by (simp add: storeOf_def)
next
  case (Some theirs)
  with assms have "storeRef theirs \<noteq> storeRef session"
    by (auto simp: wellFormed_def)
  with Some show ?thesis by (simp add: storeOf_def)
qed

lemma storeOf_write_own:
  "sessions b userId = Some session \<Longrightarrow>
   storeOf (b\<lparr>stores := (stores b)(storeRef session := st)\<rparr>) userId = Some st"
  by (simp add: storeOf_def)

lemma storeOf_read_own:
  "sessions b userId = Some session \<Longrightarrow> storeOf b userId = Some (stores b (storeRef session))"
  by (simp add: storeOf_def)

lemma storeOf_send [simp]: "storeOf (send chatId r b) userId = storeOf b userId"
  by (simp add: storeOf_def send_def)

lemma wellFormed_send [simp]: "wellFormed (send chatId r b) = wellFormed b"
  by (simp add: wellFormed_def send_def)

lemma storeOf_outbox [simp]: "storeOf (b\<lparr>outbox := ob\<rparr>) userId = storeOf b userId"
  by (simp add: storeOf_def)

lemma storeOf_jobsStarted [simp]: "storeOf (b\<lparr>jobsStarted := n\<rparr>) userId = storeOf b userId"
  by (simp add: storeOf_def)

lemma wellFormed_outbox [simp]: "wellFormed (b\<lparr>outbox := ob\<rparr>) = wellFormed b"
  by (simp add: wellFormed_def)

lemma wellFormed_jobsStarted [simp]: "wellFormed (b\<lparr>jobsStarted := n\<rparr>) = wellFormed b"
  by (simp add: wellFormed_def)

lemma wellFormed_stores [simp]: "wellFormed (b\<lparr>stores := h\<rparr>) = wellFormed b"
  by (simp add: wellFormed_def)

text \<open>What a handler that resolves the session and then rewrites the session's store does
  to the heap: the three facts every such handler shares.\<close>

lemma resolve_then_write:
  fixes f :: "MemoryStore \<Rightarrow> MemoryStore"
  defines "after userId b \<equiv>
     (snd (getOrCreateSession userId b))
       \<lparr>stores := (stores (snd (getOrCreateSession userId b)))
          (storeRef (fst (getOrCreateSession userId b))
             := f (stores (snd (getOrCreateSession userId b))
                     (storeRef (fst (getOrCreateSession userId b)))))\<rparr>"
  shows "wellFormed b \<Longrightarrow> wellFormed (after userId b)"
    and "wellFormed b \<Longrightarrow> userId \<noteq> other \<Longrightarrow> storeOf (after userId b) other = storeOf b other"
    and "storeOf (after userId b) userId
           = Some (f (resolved (storeOf b userId)))"
proof -
  let ?s = "fst (getOrCreateSession userId b)" and ?b = "snd (getOrCreateSession userId b)"
  have reg: "sessions ?b userId = Some ?s"
    by (rule getOrCreateSession_registered)
  show "wellFormed b \<Longrightarrow> wellFormed (after userId b)"
    by (simp add: after_def wellFormed_getOrCreateSession)
  show "wellFormed b \<Longrightarrow> userId \<noteq> other \<Longrightarrow> storeOf (after userId b) other = storeOf b other"
    unfolding after_def
    by (simp add: storeOf_write_other [OF wellFormed_getOrCreateSession reg]
        storeOf_getOrCreateSession_other)
  have "stores ?b (storeRef ?s) = resolved (storeOf b userId)"
    using storeOf_getOrCreateSession_own [of userId b] reg by (simp add: storeOf_read_own)
  then show "storeOf (after userId b) userId
           = Some (f (resolved (storeOf b userId)))"
    unfolding after_def by (simp add: storeOf_write_own [OF reg])
qed

lemma getOrCreateSession_outbox:
  "getOrCreateSession userId (b\<lparr>outbox := ob\<rparr>)
     = (fst (getOrCreateSession userId b), (snd (getOrCreateSession userId b))\<lparr>outbox := ob\<rparr>)"
  by (cases "sessions b userId") (simp_all add: getOrCreateSession_def Let_def)

lemma plannerInput_storeOf:
  "plannerInput b userId userText = getMessages (resolved (storeOf b userId)) @ [HumanMessage userText]"
  using storeOf_getOrCreateSession_own [of userId b] getOrCreateSession_registered [of userId b]
  by (simp add: plannerInput_def storeOf_read_own)

text \<open>The handlers, one by one: well-formedness is kept, other sessions' stores are not
  touched, and the session's own store after the handler is a function of its own store
  before.\<close>

lemma onStart_facts:
  "wellFormed (onStart chatId b) = wellFormed b"
  "storeOf (onStart chatId b) userId = storeOf b userId"
  by (simp_all add: onStart_def)

lemma onHelp_facts:
  "wellFormed (onHelp chatId b) = wellFormed b"
  "storeOf (onHelp chatId b) userId = storeOf b userId"
  by (simp_all add: onHelp_def)

lemma onClear_facts:
  "wellFormed b \<Longrightarrow> wellFormed (onClear chatId b)"
  "wellFormed b \<Longrightarrow> chatId \<noteq> other \<Longrightarrow> storeOf (onClear chatId b) other = storeOf b other"
  "storeOf (onClear chatId b) chatId = Some (clear (resolved (storeOf b chatId)))"
  using resolve_then_write [where f = clear and b = b and userId = chatId]
  by (simp_all add: onClear_def Let_def split_beta)

lemma onMemory_facts:
  "wellFormed b \<Longrightarrow> wellFormed (onMemory chatId b)"
  "wellFormed b \<Longrightarrow> chatId \<noteq> other \<Longrightarrow> storeOf (onMemory chatId b) other = storeOf b other"
  "storeOf (onMemory chatId b) chatId = Some (resolved (storeOf b chatId))"
  by (simp_all add: onMemory_def Let_def split_beta wellFormed_getOrCreateSession
      storeOf_getOrCreateSession_other storeOf_getOrCreateSession_own)

lemma getOrCreateSession_keeps:
  "sessions b userId = Some session
   \<Longrightarrow> sessions (snd (getOrCreateSession chatId b)) userId = Some session"
  by (cases "sessions b chatId") (auto simp: getOrCreateSession_def Let_def)

text \<open>The first part of the \<open>message\<close> callback only sends.\<close>

lemma messageArrival_state:
  "fst (messageArrival chatId msgText b) = b
   \<or> fst (messageArrival chatId msgText b) = send chatId AskForText b
   \<or> fst (messageArrival chatId msgText b) = b\<lparr>outbox := outbox b @ [SendChatAction chatId]\<rparr>"
  by (simp add: messageArrival_def split: option.splits)

lemma messageArrival_waiting:
  "snd (messageArrival chatId msgText b)
     = (case msgText of
          None \<Rightarrow> None
        | Some t \<Rightarrow> if prefix ''/'' t \<or> t = [] \<or> trim t = [] then None else Some t)"
  by (simp add: messageArrival_def split: option.splits)

lemma messageArrival_facts:
  "storeOf (fst (messageArrival chatId msgText b)) userId = storeOf b userId"
  "wellFormed (fst (messageArrival chatId msgText b)) = wellFormed b"
  "sessions (fst (messageArrival chatId msgText b)) = sessions b"
  using messageArrival_state [of chatId msgText b]
  by (auto simp: send_def)

text \<open>The rest of the callback resolves the session and rewrites the session's store.\<close>

lemma messageJob_unfold:
  "\<exists>ob. messageJob graph chatId t b =
     ((snd (getOrCreateSession chatId b))
       \<lparr>stores := (stores (snd (getOrCreateSession chatId b)))
          (storeRef (fst (getOrCreateSession chatId b))
             := store (tgRunJob t graph (stores (snd (getOrCreateSession chatId b))
                     (storeRef (fst (getOrCreateSession chatId b)))) chatId))\<rparr>)
       \<lparr>jobsStarted := Suc (jobsStarted (snd (getOrCreateSession chatId b))), outbox := ob\<rparr>"
  apply (simp only: messageJob_def Let_def split_beta)
  apply (cases "returned (tgRunJob t graph (stores (snd (getOrCreateSession chatId b)) (storeRef (fst (getOrCreateSession chatId b)))) chatId)")
   apply (simp_all add: send_def)
   apply (rule exI, rule refl)+
  done

lemma messageJob_facts:
  shows "storeOf (messageJob graph chatId t b) chatId
           = Some (store (tgRunJob t graph (resolved (storeOf b chatId)) chatId))"
    and "wellFormed b \<Longrightarrow> wellFormed (messageJob graph chatId t b)"
    and "wellFormed b \<Longrightarrow> chatId \<noteq> other
           \<Longrightarrow> storeOf (messageJob graph chatId t b) other = storeOf b other"
proof -
  from messageJob_unfold [of graph chatId t b] obtain ob where
    eq: "messageJob graph chatId t b =
     ((snd (getOrCreateSession chatId b))
       \<lparr>stores := (stores (snd (getOrCreateSession chatId b)))
          (storeRef (fst (getOrCreateSession chatId b))
             := store (tgRunJob t graph (stores (snd (getOrCreateSession chatId b))
                     (storeRef (fst (getOrCreateSession chatId b)))) chatId))\<rparr>)
       \<lparr>jobsStarted := Suc (jobsStarted (snd (getOrCreateSession chatId b))), outbox := ob\<rparr>"
    by blast
  note facts = resolve_then_write [where f = "\<lambda>st. store (tgRunJob t graph st chatId)" and b = b
      and userId = chatId]
  show "storeOf (messageJob graph chatId t b) chatId
           = Some (store (tgRunJob t graph (resolved (storeOf b chatId)) chatId))"
    unfolding eq using facts(3) by simp
  show "wellFormed b \<Longrightarrow> wellFormed (messageJob graph chatId t b)"
    unfolding eq using facts(1) by simp
  show "wellFormed b \<Longrightarrow> chatId \<noteq> other
           \<Longrightarrow> storeOf (messageJob graph chatId t b) other = storeOf b other"
    unfolding eq using facts(2) by simp
qed

lemma messageJob_keeps:
  assumes "sessions b userId = Some session"
  shows "sessions (messageJob graph chatId t b) userId = Some session"
proof -
  from messageJob_unfold [of graph chatId t b]
  have "sessions (messageJob graph chatId t b) = sessions (snd (getOrCreateSession chatId b))"
    by auto
  with assms show ?thesis
    by (simp add: getOrCreateSession_keeps)
qed

text \<open>The two parts, one after the other, are the callback as the source writes it.\<close>

lemma onMessage_split:
  "onMessage graph chatId msgText b =
     (case snd (messageArrival chatId msgText b) of
        None \<Rightarrow> fst (messageArrival chatId msgText b)
      | Some t \<Rightarrow> messageJob graph chatId t (fst (messageArrival chatId msgText b)))"
  by (simp add: onMessage_def messageArrival_def messageJob_def Let_def split: option.splits)

lemma onTextCallbacks_wellFormed:
  "wellFormed b \<Longrightarrow> wellFormed (onTextCallbacks chatId t b)"
  by (simp add: onTextCallbacks_def Let_def onStart_facts onHelp_facts onClear_facts onMemory_facts)

lemma onTextCallbacks_other:
  "wellFormed b \<Longrightarrow> chatId \<noteq> other
   \<Longrightarrow> storeOf (onTextCallbacks chatId t b) other = storeOf b other"
  by (simp add: onTextCallbacks_def Let_def onStart_facts onHelp_facts onClear_facts onMemory_facts)

lemma onTextCallbacks_local:
  "storeOf b chatId = storeOf b' chatId
   \<Longrightarrow> storeOf (onTextCallbacks chatId t b) chatId = storeOf (onTextCallbacks chatId t b') chatId"
  by (simp add: onTextCallbacks_def Let_def onStart_facts onHelp_facts onClear_facts onMemory_facts)

lemma onTextCallbacks_keeps:
  "sessions b userId = Some session
   \<Longrightarrow> sessions (onTextCallbacks chatId t b) userId = Some session"
  by (simp add: onTextCallbacks_def onStart_def onHelp_def onClear_def onMemory_def send_def
      Let_def split_beta getOrCreateSession_keeps)

text \<open>The dispatch of one message.\<close>

lemma dispatch_state:
  "fst (dispatch chatId msgText b)
     = (case msgText of
          None \<Rightarrow> fst (messageArrival chatId msgText b)
        | Some t \<Rightarrow> onTextCallbacks chatId t (fst (messageArrival chatId msgText b)))"
  by (simp add: dispatch_def split_beta)

lemma dispatch_waiting:
  "snd (dispatch chatId msgText b)
     = (case msgText of
          None \<Rightarrow> None
        | Some t \<Rightarrow> if prefix ''/'' t \<or> t = [] \<or> trim t = [] then None else Some t)"
  by (simp add: dispatch_def split_beta messageArrival_waiting)

lemma dispatch_wellFormed:
  "wellFormed b \<Longrightarrow> wellFormed (fst (dispatch chatId msgText b))"
  by (cases msgText)
     (simp_all add: dispatch_state messageArrival_facts onTextCallbacks_wellFormed)

lemma dispatch_other:
  "wellFormed b \<Longrightarrow> chatId \<noteq> other
   \<Longrightarrow> storeOf (fst (dispatch chatId msgText b)) other = storeOf b other"
  by (cases msgText)
     (simp_all add: dispatch_state messageArrival_facts onTextCallbacks_other)

lemma dispatch_local:
  assumes "storeOf b chatId = storeOf b' chatId"
  shows "storeOf (fst (dispatch chatId msgText b)) chatId
       = storeOf (fst (dispatch chatId msgText b')) chatId"
proof (cases msgText)
  case None
  with assms show ?thesis
    by (simp add: dispatch_state messageArrival_facts)
next
  case (Some t)
  from assms have "storeOf (fst (messageArrival chatId msgText b)) chatId
      = storeOf (fst (messageArrival chatId msgText b')) chatId"
    by (simp add: messageArrival_facts)
  then have "storeOf (onTextCallbacks chatId t (fst (messageArrival chatId msgText b))) chatId
      = storeOf (onTextCallbacks chatId t (fst (messageArrival chatId msgText b'))) chatId"
    by (rule onTextCallbacks_local)
  with Some show ?thesis
    by (simp add: dispatch_state)
qed

lemma dispatch_keeps:
  "sessions b userId = Some session
   \<Longrightarrow> sessions (fst (dispatch chatId msgText b)) userId = Some session"
  by (cases msgText)
     (simp_all add: dispatch_state messageArrival_facts onTextCallbacks_keeps)

text \<open>One message handled to its end.\<close>

lemma processUpdate_stages:
  "processUpdate graph chatId msgText b =
     (case snd (dispatch chatId msgText b) of
        None \<Rightarrow> fst (dispatch chatId msgText b)
      | Some t \<Rightarrow> messageJob graph chatId t (fst (dispatch chatId msgText b)))"
  by (simp add: processUpdate_def split_beta)

lemma processUpdate_wellFormed:
  "wellFormed b \<Longrightarrow> wellFormed (processUpdate graph chatId msgText b)"
  by (cases "snd (dispatch chatId msgText b)")
     (simp_all add: processUpdate_stages dispatch_wellFormed messageJob_facts)

lemma processUpdate_other:
  "wellFormed b \<Longrightarrow> chatId \<noteq> other
   \<Longrightarrow> storeOf (processUpdate graph chatId msgText b) other = storeOf b other"
  by (cases "snd (dispatch chatId msgText b)")
     (simp_all add: processUpdate_stages dispatch_wellFormed dispatch_other messageJob_facts)

lemma processUpdate_local:
  assumes "storeOf b chatId = storeOf b' chatId"
  shows "storeOf (processUpdate graph chatId msgText b) chatId
       = storeOf (processUpdate graph chatId msgText b') chatId"
proof -
  have same: "snd (dispatch chatId msgText b) = snd (dispatch chatId msgText b')"
    by (simp add: dispatch_waiting)
  have own: "storeOf (fst (dispatch chatId msgText b)) chatId
      = storeOf (fst (dispatch chatId msgText b')) chatId"
    using assms by (rule dispatch_local)
  show ?thesis
  proof (cases "snd (dispatch chatId msgText b')")
    case None
    with same own show ?thesis
      by (simp add: processUpdate_stages)
  next
    case (Some t)
    with same own show ?thesis
      by (simp add: processUpdate_stages messageJob_facts(1))
  qed
qed

lemma processUpdate_keeps:
  "sessions b userId = Some session
   \<Longrightarrow> sessions (processUpdate graph chatId msgText b) userId = Some session"
  by (cases "snd (dispatch chatId msgText b)")
     (simp_all add: processUpdate_stages dispatch_keeps messageJob_keeps)

lemma runUpdates_snoc:
  "runUpdates graph (updates @ [(chatId, msgText)]) b
     = processUpdate graph chatId msgText (runUpdates graph updates b)"
  by (simp add: runUpdates_def)

lemma runUpdates_wellFormed:
  "wellFormed b \<Longrightarrow> wellFormed (runUpdates graph updates b)"
proof (induction updates rule: rev_induct)
  case Nil
  then show ?case by (simp add: runUpdates_def)
next
  case (snoc u updates)
  then show ?case
    by (cases u) (simp add: runUpdates_snoc processUpdate_wellFormed)
qed

text \<open>A session's store after a run is its store after the run of its own messages
  alone.\<close>

lemma runUpdates_projection:
  assumes "wellFormed b"
  shows "storeOf (runUpdates graph updates b) userId
       = storeOf (runUpdates graph (filter (\<lambda>u. fst u = userId) updates) b) userId"
proof (induction updates rule: rev_induct)
  case Nil
  show ?case by simp
next
  case (snoc u updates)
  obtain chatId msgText where u: "u = (chatId, msgText)"
    by (cases u)
  let ?own = "filter (\<lambda>u. fst u = userId) updates"
  show ?case
  proof (cases "chatId = userId")
    case True
    have "storeOf (processUpdate graph userId msgText (runUpdates graph updates b)) userId
        = storeOf (processUpdate graph userId msgText (runUpdates graph ?own b)) userId"
      using snoc.IH by (rule processUpdate_local)
    moreover have "filter (\<lambda>u. fst u = userId) (updates @ [u]) = ?own @ [(userId, msgText)]"
      using True u by simp
    then have "runUpdates graph (filter (\<lambda>u. fst u = userId) (updates @ [u])) b
        = processUpdate graph userId msgText (runUpdates graph ?own b)"
      by (simp only: runUpdates_snoc)
    moreover have "runUpdates graph (updates @ [u]) b
        = processUpdate graph userId msgText (runUpdates graph updates b)"
      using True u by (simp only: runUpdates_snoc)
    ultimately show ?thesis
      by (simp only:)
  next
    case False
    have "wellFormed (runUpdates graph updates b)"
      using assms by (rule runUpdates_wellFormed)
    then have "storeOf (processUpdate graph chatId msgText (runUpdates graph updates b)) userId
        = storeOf (runUpdates graph updates b) userId"
      using False by (rule processUpdate_other)
    moreover have "filter (\<lambda>u. fst u = userId) (updates @ [u]) = ?own"
      using False u by simp
    moreover have "runUpdates graph (updates @ [u]) b
        = processUpdate graph chatId msgText (runUpdates graph updates b)"
      using u by (simp only: runUpdates_snoc)
    ultimately show ?thesis
      using snoc.IH by (simp only:)
  qed
qed

lemma runUpdates_keeps:
  "sessions b userId = Some session
   \<Longrightarrow> sessions (runUpdates graph updates b) userId = Some session"
proof (induction updates rule: rev_induct)
  case Nil
  then show ?case by (simp add: runUpdates_def)
next
  case (snoc u updates)
  then show ?case
    by (cases u) (simp add: runUpdates_snoc processUpdate_keeps)
qed

lemma getOrCreateSession_sessions_other:
  "userId \<noteq> other \<Longrightarrow> sessions (snd (getOrCreateSession userId b)) other = sessions b other"
  by (cases "sessions b userId") (simp_all add: getOrCreateSession_def Let_def)

lemma distinct_sessions_distinct_stores:
  assumes "wellFormed b" and "userId \<noteq> other"
  shows "storeRef (fst (getOrCreateSession userId b))
           \<noteq> storeRef (fst (getOrCreateSession other (snd (getOrCreateSession userId b))))"
proof -
  let ?b1 = "snd (getOrCreateSession userId b)"
  let ?b2 = "snd (getOrCreateSession other ?b1)"
  have "sessions ?b1 userId = Some (fst (getOrCreateSession userId b))"
    by (rule getOrCreateSession_registered)
  with assms(2) have mine: "sessions ?b2 userId = Some (fst (getOrCreateSession userId b))"
    by (simp add: getOrCreateSession_sessions_other)
  have theirs: "sessions ?b2 other = Some (fst (getOrCreateSession other ?b1))"
    by (rule getOrCreateSession_registered)
  have "wellFormed ?b2"
    using assms(1) by (intro wellFormed_getOrCreateSession)
  with mine theirs assms(2) show ?thesis
    unfolding wellFormed_def by blast
qed

section \<open>The memory bound in the running program\<close>

lemma onLine_bounded:
  assumes "maxMessages (memoryStore c) = 50" and "length (messages (memoryStore c)) \<le> 50"
  shows "maxMessages (memoryStore (onLine graph line c)) = 50
       \<and> length (messages (memoryStore (onLine graph line c))) \<le> 50"
proof -
  have "length (messages (store (runJob (trim line) graph (memoryStore c)))) \<le> 50"
    using runJob_bounded [of "memoryStore c" "trim line" graph] assms by simp
  with assms show ?thesis
    by (simp add: onLine_def Let_def clear_def split: sum.splits)
qed

lemma fold_onLine_bounded:
  assumes "maxMessages (memoryStore c) = 50" and "length (messages (memoryStore c)) \<le> 50"
  shows "maxMessages (memoryStore (fold (onLine graph) lines c)) = 50
       \<and> length (messages (memoryStore (fold (onLine graph) lines c))) \<le> 50"
  using assms
proof (induction lines arbitrary: c)
  case Nil
  then show ?case by simp
next
  case (Cons line lines)
  from onLine_bounded [OF Cons.prems, of graph line]
  have "maxMessages (memoryStore (onLine graph line c)) = 50"
    and "length (messages (memoryStore (onLine graph line c))) \<le> 50"
    by simp_all
  from Cons.IH [OF this] show ?case by simp
qed

lemma boundedStores_botStart: "boundedStores botStart"
  by (simp add: boundedStores_def botStart_def newMemoryStore_def)

lemma boundedStores_send [simp]: "boundedStores (send chatId r b) = boundedStores b"
  by (simp add: boundedStores_def send_def)

lemma boundedStores_getOrCreateSession:
  "boundedStores b \<Longrightarrow> boundedStores (snd (getOrCreateSession userId b))"
  by (cases "sessions b userId")
     (simp_all add: getOrCreateSession_def boundedStores_def newMemoryStore_def Let_def)

lemma boundedStores_write:
  "boundedStores b \<Longrightarrow> maxMessages st = 50 \<Longrightarrow> length (messages st) \<le> 50
   \<Longrightarrow> boundedStores (b\<lparr>stores := (stores b)(address := st)\<rparr>)"
  by (simp add: boundedStores_def)

lemma boundedStores_at:
  "boundedStores b \<Longrightarrow> maxMessages (stores b address) = 50"
  "boundedStores b \<Longrightarrow> length (messages (stores b address)) \<le> 50"
  by (simp_all add: boundedStores_def)

lemma boundedStores_onClear: "boundedStores b \<Longrightarrow> boundedStores (onClear chatId b)"
proof -
  assume "boundedStores b"
  then have b1: "boundedStores (snd (getOrCreateSession chatId b))"
    by (rule boundedStores_getOrCreateSession)
  show ?thesis
    unfolding onClear_def Let_def split_beta boundedStores_send
    by (rule boundedStores_write [OF b1]) (simp_all add: clear_def boundedStores_at [OF b1])
qed

lemma boundedStores_onMemory: "boundedStores b \<Longrightarrow> boundedStores (onMemory chatId b)"
  by (simp add: onMemory_def Let_def split_beta boundedStores_getOrCreateSession)

lemma boundedStores_messageArrival:
  "boundedStores (fst (messageArrival chatId msgText b)) = boundedStores b"
  using messageArrival_state [of chatId msgText b]
  by (auto simp: boundedStores_def send_def)

lemma boundedStores_messageJob:
  assumes "boundedStores b"
  shows "boundedStores (messageJob graph chatId t b)"
proof -
  let ?s = "fst (getOrCreateSession chatId b)" and ?b = "snd (getOrCreateSession chatId b)"
  from messageJob_unfold [of graph chatId t b] obtain ob where
    eq: "messageJob graph chatId t b =
     (?b\<lparr>stores := (stores ?b)
          (storeRef ?s := store (tgRunJob t graph (stores ?b (storeRef ?s)) chatId))\<rparr>)
       \<lparr>jobsStarted := Suc (jobsStarted ?b), outbox := ob\<rparr>"
    by blast
  have b1: "boundedStores ?b"
    using assms by (rule boundedStores_getOrCreateSession)
  have "boundedStores (?b\<lparr>stores := (stores ?b)
          (storeRef ?s := store (tgRunJob t graph (stores ?b (storeRef ?s)) chatId))\<rparr>)"
    using runJob_bounded [of "stores ?b (storeRef ?s)" t graph] boundedStores_at [OF b1, of "storeRef ?s"]
    by (intro boundedStores_write [OF b1]) (simp_all add: tgRunJob_eq_runJob)
  then show ?thesis
    unfolding eq by (simp add: boundedStores_def)
qed

lemma boundedStores_onTextCallbacks:
  "boundedStores b \<Longrightarrow> boundedStores (onTextCallbacks chatId t b)"
  by (simp add: onTextCallbacks_def Let_def boundedStores_onClear boundedStores_onMemory
      onStart_def onHelp_def)

lemma boundedStores_dispatch:
  "boundedStores b \<Longrightarrow> boundedStores (fst (dispatch chatId msgText b))"
  by (cases msgText)
     (simp_all add: dispatch_state boundedStores_messageArrival boundedStores_onTextCallbacks)

lemma boundedStores_processUpdate:
  "boundedStores b \<Longrightarrow> boundedStores (processUpdate graph chatId msgText b)"
  by (cases "snd (dispatch chatId msgText b)")
     (simp_all add: processUpdate_stages boundedStores_dispatch boundedStores_messageJob)

lemma boundedStores_runUpdates:
  "boundedStores b \<Longrightarrow> boundedStores (runUpdates graph updates b)"
proof (induction updates rule: rev_induct)
  case Nil
  then show ?case by (simp add: runUpdates_def)
next
  case (snoc u updates)
  then show ?case
    by (cases u) (simp add: runUpdates_snoc boundedStores_processUpdate)
qed

lemma resolved_bounded:
  "boundedStores b \<Longrightarrow> getMessageCount (resolved (storeOf b userId)) \<le> 50"
  by (cases "sessions b userId")
     (simp_all add: resolved_def storeOf_def getMessageCount_def newMemoryStore_def
        boundedStores_at)

text \<open>
  C3 (memory bound). A store created with capacity 50 holds at most 50 turns after any
  sequence of appends and clears; what it holds is a contiguous suffix of everything
  ever appended, namely exactly the last 50 turns appended since the last clear, so
  eviction only ever removes the oldest turns. The stores the program creates are such
  stores: after any sequence of input lines the command-line session's store holds at
  most 50 turns, and so does every chat id's store after any run of messages.
\<close>

theorem memory_bound_fifo:
  "getMessageCount (fold applyOp ops (newMemoryStore 50)) \<le> 50
   \<and> suffix (getMessages (fold applyOp ops (newMemoryStore 50))) (everAppended ops)
   \<and> getMessages (fold applyOp ops (newMemoryStore 50)) = lastTurns 50 (sinceClear [] ops)
   \<and> getMessageCount (memoryStore (fold (onLine graph) lines cliStart)) \<le> 50
   \<and> getMessageCount (resolved (storeOf (runUpdates graph updates botStart) userId)) \<le> 50"
proof -
  have cli: "getMessageCount (memoryStore (fold (onLine graph) lines cliStart)) \<le> 50"
    using fold_onLine_bounded [of cliStart graph lines]
    by (simp add: cliStart_def newMemoryStore_def getMessageCount_def)
  have bot: "getMessageCount (resolved (storeOf (runUpdates graph updates botStart) userId)) \<le> 50"
    by (intro resolved_bounded boundedStores_runUpdates boundedStores_botStart)
  let ?st = "fold applyOp ops (newMemoryStore 50)"
  have start: "messages (newMemoryStore 50) = lastTurns (maxMessages (newMemoryStore 50)) []"
    by (simp add: newMemoryStore_def lastTurns_def)
  have stored: "messages ?st = lastTurns 50 (sinceClear [] ops)"
    using fold_applyOp_messages [OF start, of ops] by (simp add: newMemoryStore_def)
  have "suffix (lastTurns 50 (sinceClear [] ops)) (sinceClear [] ops)"
    by (rule suffix_lastTurns)
  moreover have "suffix (sinceClear [] ops) (everAppended ops)"
    using suffix_sinceClear [of "[]" ops] by simp
  ultimately have "suffix (messages ?st) (everAppended ops)"
    unfolding stored by (rule suffix_order.trans)
  with stored cli bot show ?thesis
    by (simp add: getMessageCount_def getMessages_def length_lastTurns)
qed

section \<open>Texts that begin with a slash\<close>

lemma trim_plain [simp]: "trim ''hi'' = ''hi''"
  by (simp add: trim_def isWhiteSpace_def)

lemma afterOneJob_eq:
  "afterOneJob =
     \<lparr>sessions = [7 \<mapsto> \<lparr>storeRef = 0\<rparr>],
      stores = (\<lambda>address. newMemoryStore 50)
        (0 := \<lparr>messages = [Message Human ''hi'', Message Assistant ''ok''], maxMessages = 50\<rparr>),
      allocated = 1,
      outbox = [SendChatAction 7, SendMessage 7 (Response ''ok'')],
      jobsStarted = 1\<rparr>"
  by (simp add: afterOneJob_def processUpdate_def dispatch_def messageArrival_def messageJob_def onTextCallbacks_def
      matchesStart_def matchesHelp_def matchesClear_def matchesMemory_def sublist_code
      getOrCreateSession_def botStart_def tgRunJob_def answeringGraph_def getMessages_def
      newMemoryStore_def HumanMessage_def addMessages_def responseMessages_def Let_def)

text \<open>
  A task that mentions a command word: \<open>please /clear\<close> from chat 7, which has two
  stored turns. The typing indicator is sent, the clear callback empties the store and
  replies, and only then does the job read the history: it starts from the empty store,
  and the store ends with the two turns of this job.
\<close>

lemma command_word_in_task:
  "processUpdate answeringGraph 7 (Some ''please /clear'') afterOneJob =
     afterOneJob
       \<lparr>stores := (stores afterOneJob)
          (0 := \<lparr>messages = [Message Human ''please /clear'', Message Assistant ''ok''],
                 maxMessages = 50\<rparr>),
        outbox := outbox afterOneJob
          @ [SendChatAction 7, SendMessage 7 ClearedReply, SendMessage 7 (Response ''ok'')],
        jobsStarted := 2\<rparr>"
  by (simp add: afterOneJob_eq processUpdate_def dispatch_def messageArrival_def messageJob_def
      onTextCallbacks_def matchesStart_def matchesHelp_def matchesClear_def matchesMemory_def
      sublist_code onClear_def send_def clear_def getOrCreateSession_def tgRunJob_def
      answeringGraph_def getMessages_def HumanMessage_def addMessages_def responseMessages_def
      trim_def isWhiteSpace_def Let_def)

text \<open>
  C10, as stated, has every text that begins with a slash and is not one of the six
  commands ignored. The patterns are not anchored: \<open>/clearly\<close> is none of the commands,
  yet it contains \<open>/clear\<close>, so the clear callback runs. For chat 7, which has two
  stored turns, the store is emptied and a reply is sent; for chat 8, which has no
  session, one is created.
\<close>

theorem slash_text_not_ignored:
  "prefix ''/'' ''/clearly''
   \<and> ''/clearly'' \<notin> {''/start'', ''/help'', ''/clear'', ''/reset'', ''/memory'', ''/stats''}
   \<and> map_option getMessageCount (storeOf afterOneJob 7) = Some 2
   \<and> map_option getMessageCount
         (storeOf (processUpdate answeringGraph 7 (Some ''/clearly'') afterOneJob) 7) = Some 0
   \<and> outbox (processUpdate answeringGraph 7 (Some ''/clearly'') afterOneJob)
       = outbox afterOneJob @ [SendMessage 7 ClearedReply]
   \<and> sessions afterOneJob 8 = None
   \<and> sessions (processUpdate answeringGraph 8 (Some ''/clearly'') afterOneJob) 8
       = Some \<lparr>storeRef = 1\<rparr>"
  by (simp add: afterOneJob_eq processUpdate_def dispatch_def messageArrival_def messageJob_def onTextCallbacks_def
      matchesStart_def matchesHelp_def matchesClear_def matchesMemory_def sublist_code
      onClear_def send_def clear_def getOrCreateSession_def storeOf_def getMessageCount_def
      Let_def)

text \<open>
  C10 (amended). A text that begins with a slash and contains none of the words
  \<open>/start\<close>, \<open>/help\<close>, \<open>/clear\<close>, \<open>/reset\<close>, \<open>/memory\<close>, \<open>/stats\<close> anywhere is ignored
  by the bot: the whole state (sessions, stores, outbox, number of jobs) is as before. On
  the command line, a line that is empty after trimming leaves the state as it was: no
  job, nothing printed, the store untouched.
\<close>

theorem unmatched_slash_text_ignored:
  "(prefix ''/'' t \<and> \<not> matchesStart t \<and> \<not> matchesHelp t \<and> \<not> matchesClear t \<and> \<not> matchesMemory t
      \<longrightarrow> processUpdate graph chatId (Some t) b = b)
   \<and> (trim line = [] \<longrightarrow> onLine graph line c = c)"
  by (simp add: processUpdate_def dispatch_def messageArrival_def onTextCallbacks_def onLine_def
      Let_def)

theorem unmatched_slash_text_ignored_witness:
  "prefix ''/'' ''/foo''
   \<and> \<not> matchesStart ''/foo'' \<and> \<not> matchesHelp ''/foo''
   \<and> \<not> matchesClear ''/foo'' \<and> \<not> matchesMemory ''/foo''
   \<and> processUpdate answeringGraph 7 (Some ''/foo'') afterOneJob = afterOneJob
   \<and> trim ''  '' = []
   \<and> onLine answeringGraph ''  '' cliStart = cliStart"
proof -
  have slash: "prefix ''/'' ''/foo''"
    by simp
  have unmatched: "\<not> matchesStart ''/foo''" "\<not> matchesHelp ''/foo''"
      "\<not> matchesClear ''/foo''" "\<not> matchesMemory ''/foo''"
    by (simp_all add: matchesStart_def matchesHelp_def matchesClear_def matchesMemory_def
        sublist_code)
  have blank: "trim ''  '' = []"
    by (simp add: trim_def isWhiteSpace_def)
  from unmatched_slash_text_ignored [of "''/foo''" answeringGraph 7 afterOneJob "''  ''" cliStart]
    slash unmatched blank
  show ?thesis by simp
qed

section \<open>Jobs in flight\<close>

lemma asyncWellFormed_asyncStart: "asyncWellFormed asyncStart"
  by (simp add: asyncWellFormed_def asyncStart_def wellFormed_botStart)

lemma arrive_parts:
  "botState (arrive chatId msgText a) = fst (dispatch chatId msgText (botState a))"
  "inFlight (arrive chatId msgText a) = inFlight a"
  "awaitingTyping (arrive chatId msgText a)
     = awaitingTyping a
       @ (case snd (dispatch chatId msgText (botState a)) of
            None \<Rightarrow> []
          | Some t \<Rightarrow> [\<lparr>waitChat = chatId, waitText = t\<rparr>])"
  by (simp_all add: arrive_def split_beta)

lemma arrive_asyncWellFormed:
  "asyncWellFormed a \<Longrightarrow> asyncWellFormed (arrive chatId msgText a)"
  by (simp add: asyncWellFormed_def arrive_parts dispatch_wellFormed dispatch_keeps)

lemma arrive_other:
  "asyncWellFormed a \<Longrightarrow> chatId \<noteq> other
   \<Longrightarrow> storeOf (botState (arrive chatId msgText a)) other = storeOf (botState a) other"
  by (simp add: asyncWellFormed_def arrive_parts dispatch_other)

text \<open>What the callback does when it goes on after the typing indicator: nothing when the
  call was rejected; otherwise it resolves the session of its chat id and puts one job in
  flight.\<close>

lemma typingSettled_cases:
  assumes "k < length (awaitingTyping a)"
  shows "(\<not> fulfilled
          \<and> botState (typingSettled k fulfilled a) = botState a
          \<and> inFlight (typingSettled k fulfilled a) = inFlight a)
       \<or> (fulfilled
          \<and> (\<exists>job. botState (typingSettled k fulfilled a)
                = (snd (getOrCreateSession (waitChat (awaitingTyping a ! k)) (botState a)))
                    \<lparr>jobsStarted := Suc (jobsStarted (botState a))\<rparr>
              \<and> inFlight (typingSettled k fulfilled a) = inFlight a @ [job]
              \<and> jobChat job = waitChat (awaitingTyping a ! k)
              \<and> jobSession job
                  = fst (getOrCreateSession (waitChat (awaitingTyping a ! k)) (botState a))))"
proof (cases fulfilled)
  case False
  with assms show ?thesis
    by (simp add: typingSettled_def Let_def)
next
  case True
  have "jobsStarted (snd (getOrCreateSession (waitChat (awaitingTyping a ! k)) (botState a)))
      = jobsStarted (botState a)"
    by (cases "sessions (botState a) (waitChat (awaitingTyping a ! k))")
       (simp_all add: getOrCreateSession_def Let_def)
  with True assms show ?thesis
    by (simp add: typingSettled_def Let_def split_beta)
qed

lemma typingSettled_out_of_range:
  "length (awaitingTyping a) \<le> k \<Longrightarrow> typingSettled k fulfilled a = a"
  by (simp add: typingSettled_def)

lemma typingSettled_asyncWellFormed:
  assumes "asyncWellFormed a"
  shows "asyncWellFormed (typingSettled k fulfilled a)"
proof (cases "k < length (awaitingTyping a)")
  case False
  with assms show ?thesis
    by (simp add: typingSettled_out_of_range)
next
  case True
  from assms have wf: "wellFormed (botState a)"
    and held: "\<And>job. job \<in> set (inFlight a)
        \<Longrightarrow> sessions (botState a) (jobChat job) = Some (jobSession job)"
    by (simp_all add: asyncWellFormed_def)
  let ?chat = "waitChat (awaitingTyping a ! k)"
  let ?b = "snd (getOrCreateSession ?chat (botState a))"
  from typingSettled_cases [OF True, of fulfilled] show ?thesis
  proof (elim disjE exE conjE)
    assume "botState (typingSettled k fulfilled a) = botState a"
      and "inFlight (typingSettled k fulfilled a) = inFlight a"
    with wf held show ?thesis
      by (simp add: asyncWellFormed_def)
  next
    fix job
    assume state: "botState (typingSettled k fulfilled a)
        = ?b\<lparr>jobsStarted := Suc (jobsStarted (botState a))\<rparr>"
      and jobs: "inFlight (typingSettled k fulfilled a) = inFlight a @ [job]"
      and job: "jobChat job = ?chat" "jobSession job = fst (getOrCreateSession ?chat (botState a))"
    have "wellFormed (botState (typingSettled k fulfilled a))"
      unfolding state using wf by (simp add: wellFormed_getOrCreateSession)
    moreover have "sessions (botState (typingSettled k fulfilled a)) (jobChat j) = Some (jobSession j)"
      if "j \<in> set (inFlight a @ [job])" for j
    proof (cases "j = job")
      case True
      with job show ?thesis
        unfolding state by (simp add: getOrCreateSession_registered)
    next
      case False
      with that have "j \<in> set (inFlight a)" by simp
      then show ?thesis
        unfolding state by (simp add: held getOrCreateSession_keeps)
    qed
    ultimately show ?thesis
      by (simp add: asyncWellFormed_def jobs)
  qed
qed

lemma typingSettled_other:
  assumes "asyncWellFormed a" and "k < length (awaitingTyping a)"
    and "waitChat (awaitingTyping a ! k) \<noteq> other"
  shows "storeOf (botState (typingSettled k fulfilled a)) other = storeOf (botState a) other"
proof -
  from assms(1) have wf: "wellFormed (botState a)"
    by (simp add: asyncWellFormed_def)
  from typingSettled_cases [OF assms(2), of fulfilled] show ?thesis
  proof (elim disjE exE conjE)
    assume "botState (typingSettled k fulfilled a) = botState a"
    then show ?thesis by simp
  next
    fix job
    assume "botState (typingSettled k fulfilled a)
        = (snd (getOrCreateSession (waitChat (awaitingTyping a ! k)) (botState a)))
            \<lparr>jobsStarted := Suc (jobsStarted (botState a))\<rparr>"
    then show ?thesis
      using wf assms(3) by (simp add: storeOf_getOrCreateSession_other)
  qed
qed

lemma completeJob_sessions [simp]:
  "sessions (botState (completeJob k settled a)) = sessions (botState a)"
  by (simp add: completeJob_def Let_def send_def split: sum.splits)

lemma completeJob_allocated [simp]:
  "allocated (botState (completeJob k settled a)) = allocated (botState a)"
  by (simp add: completeJob_def Let_def send_def split: sum.splits)

lemma completeJob_inFlight:
  "set (inFlight (completeJob k settled a)) \<subseteq> set (inFlight a)"
  by (auto simp: completeJob_def Let_def split: sum.splits dest: in_set_takeD in_set_dropD)

lemma completeJob_asyncWellFormed:
  assumes "asyncWellFormed a"
  shows "asyncWellFormed (completeJob k settled a)"
  using assms completeJob_inFlight [of k settled a]
  unfolding asyncWellFormed_def wellFormed_def
  by (simp add: subset_iff)

lemma completeJob_other:
  assumes "asyncWellFormed a" and "k < length (inFlight a)"
    and "jobChat (inFlight a ! k) \<noteq> other"
  shows "storeOf (botState (completeJob k settled a)) other = storeOf (botState a) other"
proof -
  let ?job = "inFlight a ! k"
  from assms(1,2) have wf: "wellFormed (botState a)"
    and mine: "sessions (botState a) (jobChat ?job) = Some (jobSession ?job)"
    by (simp_all add: asyncWellFormed_def)
  have untouched: "storeOf ((botState a)\<lparr>stores := (stores (botState a))(storeRef (jobSession ?job) := st)\<rparr>) other
      = storeOf (botState a) other" for st
    using wf mine assms(3) by (rule storeOf_write_other)
  show ?thesis
    using assms(2) untouched
    by (simp add: completeJob_def Let_def split: sum.splits)
qed

text \<open>The three parts are the callback: when nothing else is waiting or in flight, a
  message whose typing indicator is sent and whose job completes with what the graph
  returns for its input leaves the bot as \<open>processUpdate\<close> does; a message that starts no
  job leaves it so on arrival.\<close>

lemma parts_make_processUpdate:
  assumes "awaitingTyping a = []" and "inFlight a = []"
  shows "snd (dispatch chatId msgText (botState a)) = None
         \<Longrightarrow> botState (arrive chatId msgText a) = processUpdate graph chatId msgText (botState a)"
    and "snd (dispatch chatId msgText (botState a)) = Some t
         \<Longrightarrow> botState (completeJob 0
                 (graph 60 (plannerInput (fst (dispatch chatId msgText (botState a))) chatId t))
                 (typingSettled 0 True (arrive chatId msgText a)))
             = processUpdate graph chatId msgText (botState a)"
proof -
  show "snd (dispatch chatId msgText (botState a)) = None
         \<Longrightarrow> botState (arrive chatId msgText a) = processUpdate graph chatId msgText (botState a)"
    by (simp add: arrive_parts processUpdate_stages)
next
  assume waiting: "snd (dispatch chatId msgText (botState a)) = Some t"
  let ?b = "fst (dispatch chatId msgText (botState a))"
  have input: "plannerInput ?b chatId t
      = getMessages (stores (snd (getOrCreateSession chatId ?b))
          (storeRef (fst (getOrCreateSession chatId ?b)))) @ [HumanMessage t]"
    by (simp add: plannerInput_def)
  have "botState (completeJob 0 (graph 60 (plannerInput ?b chatId t))
          (typingSettled 0 True (arrive chatId msgText a)))
      = messageJob graph chatId t ?b"
    unfolding input using assms waiting
    by (cases "graph 60 (getMessages (stores (snd (getOrCreateSession chatId ?b))
          (storeRef (fst (getOrCreateSession chatId ?b)))) @ [HumanMessage t])")
       (simp_all add: arrive_def typingSettled_def completeJob_def messageJob_def tgRunJob_def
          send_def Let_def split_beta)
  with waiting show "botState (completeJob 0
                 (graph 60 (plannerInput (fst (dispatch chatId msgText (botState a))) chatId t))
                 (typingSettled 0 True (arrive chatId msgText a)))
             = processUpdate graph chatId msgText (botState a)"
    by (simp add: processUpdate_stages)
qed

section \<open>Session isolation\<close>

text \<open>
  C6 (session registry and isolation). In a well-formed registry (the initial one is, and
  every handler keeps it so), \<open>getOrCreateSession\<close> returns the existing session and
  changes nothing when the chat id has one; otherwise it registers exactly one new
  session whose store is empty, has capacity 50 and lives at an address no other session
  refers to. A second call with the same id returns the same session and changes nothing,
  and so does a call after any run of messages, since sessions are never removed or
  replaced; calls with two distinct ids return sessions with distinct stores. Handling a message of
  one chat id leaves the planner input of every other id as it was, and after any run of
  messages the planner input of an id is what it would be had only that id's messages
  been handled: no turn of another session is in it. The same separation holds when jobs
  overlap: the arrival of a message, the start of its job once the typing indicator has
  settled, and the completion of a job change no store but that of their own chat id.
\<close>

theorem session_isolation:
  assumes "wellFormed b"
  shows "(\<forall>session. sessions b userId = Some session \<longrightarrow> getOrCreateSession userId b = (session, b))
    \<and> (sessions b userId = None \<longrightarrow>
          storeRef (fst (getOrCreateSession userId b)) = allocated b
        \<and> (\<forall>other s. sessions b other = Some s \<longrightarrow> storeRef s \<noteq> allocated b)
        \<and> storeOf (snd (getOrCreateSession userId b)) userId = Some (newMemoryStore 50)
        \<and> getMessages (newMemoryStore 50) = []
        \<and> sessions (snd (getOrCreateSession userId b))
            = (sessions b)(userId \<mapsto> fst (getOrCreateSession userId b))
        \<and> allocated (snd (getOrCreateSession userId b)) = Suc (allocated b))
    \<and> getOrCreateSession userId (snd (getOrCreateSession userId b))
        = (fst (getOrCreateSession userId b), snd (getOrCreateSession userId b))
    \<and> (userId \<noteq> other \<longrightarrow>
          storeRef (fst (getOrCreateSession userId b))
            \<noteq> storeRef (fst (getOrCreateSession other (snd (getOrCreateSession userId b)))))
    \<and> wellFormed (processUpdate graph userId msgText b)
    \<and> (userId \<noteq> other \<longrightarrow>
          plannerInput (processUpdate graph userId msgText b) other userText
            = plannerInput b other userText)
    \<and> plannerInput (runUpdates graph updates b) userId userText
        = plannerInput (runUpdates graph (filter (\<lambda>u. fst u = userId) updates) b) userId userText
    \<and> (\<forall>session. sessions b userId = Some session \<longrightarrow>
          getOrCreateSession userId (runUpdates graph updates b)
            = (session, runUpdates graph updates b))
    \<and> (\<forall>a. asyncWellFormed a \<and> userId \<noteq> other \<longrightarrow>
          storeOf (botState (arrive userId msgText a)) other = storeOf (botState a) other
        \<and> asyncWellFormed (arrive userId msgText a))
    \<and> (\<forall>a k fulfilled. asyncWellFormed a \<and> k < length (awaitingTyping a)
            \<and> waitChat (awaitingTyping a ! k) \<noteq> other \<longrightarrow>
          storeOf (botState (typingSettled k fulfilled a)) other = storeOf (botState a) other
        \<and> asyncWellFormed (typingSettled k fulfilled a))
    \<and> (\<forall>a k settled. asyncWellFormed a \<and> k < length (inFlight a)
            \<and> jobChat (inFlight a ! k) \<noteq> other \<longrightarrow>
          storeOf (botState (completeJob k settled a)) other = storeOf (botState a) other
        \<and> asyncWellFormed (completeJob k settled a))"
proof -
  have arriving: "\<forall>a. asyncWellFormed a \<and> userId \<noteq> other \<longrightarrow>
          storeOf (botState (arrive userId msgText a)) other = storeOf (botState a) other
        \<and> asyncWellFormed (arrive userId msgText a)"
    by (simp add: arrive_other arrive_asyncWellFormed)
  have starting: "\<forall>a k fulfilled. asyncWellFormed a \<and> k < length (awaitingTyping a)
            \<and> waitChat (awaitingTyping a ! k) \<noteq> other \<longrightarrow>
          storeOf (botState (typingSettled k fulfilled a)) other = storeOf (botState a) other
        \<and> asyncWellFormed (typingSettled k fulfilled a)"
    by (simp add: typingSettled_other typingSettled_asyncWellFormed)
  have completing: "\<forall>a k settled. asyncWellFormed a \<and> k < length (inFlight a)
            \<and> jobChat (inFlight a ! k) \<noteq> other \<longrightarrow>
          storeOf (botState (completeJob k settled a)) other = storeOf (botState a) other
        \<and> asyncWellFormed (completeJob k settled a)"
    by (simp add: completeJob_other completeJob_asyncWellFormed)
  have later: "\<forall>session. sessions b userId = Some session \<longrightarrow>
          getOrCreateSession userId (runUpdates graph updates b)
            = (session, runUpdates graph updates b)"
    by (simp add: runUpdates_keeps getOrCreateSession_existing)
  have existing: "\<forall>session. sessions b userId = Some session
      \<longrightarrow> getOrCreateSession userId b = (session, b)"
    by (simp add: getOrCreateSession_existing)
  have fresh: "\<forall>other s. sessions b other = Some s \<longrightarrow> storeRef s \<noteq> allocated b"
  proof (intro allI impI)
    fix other s
    assume "sessions b other = Some s"
    with assms have "storeRef s < allocated b"
      unfolding wellFormed_def by blast
    then show "storeRef s \<noteq> allocated b" by simp
  qed
  have new: "sessions b userId = None \<longrightarrow>
          storeRef (fst (getOrCreateSession userId b)) = allocated b
        \<and> storeOf (snd (getOrCreateSession userId b)) userId = Some (newMemoryStore 50)
        \<and> getMessages (newMemoryStore 50) = []
        \<and> sessions (snd (getOrCreateSession userId b))
            = (sessions b)(userId \<mapsto> fst (getOrCreateSession userId b))
        \<and> allocated (snd (getOrCreateSession userId b)) = Suc (allocated b)"
    by (simp add: getOrCreateSession_new storeOf_def getMessages_def newMemoryStore_def)
  have distinct: "userId \<noteq> other \<longrightarrow>
          storeRef (fst (getOrCreateSession userId b))
            \<noteq> storeRef (fst (getOrCreateSession other (snd (getOrCreateSession userId b))))"
    using assms by (simp add: distinct_sessions_distinct_stores)
  have frame: "userId \<noteq> other \<longrightarrow>
          plannerInput (processUpdate graph userId msgText b) other userText
            = plannerInput b other userText"
    using assms by (simp add: plannerInput_storeOf processUpdate_other)
  have projection: "plannerInput (runUpdates graph updates b) userId userText
        = plannerInput (runUpdates graph (filter (\<lambda>u. fst u = userId) updates) b) userId userText"
    using runUpdates_projection [OF assms, of graph updates userId]
    by (simp only: plannerInput_storeOf)
  from existing fresh new distinct frame projection later arriving starting completing
    getOrCreateSession_idem [of userId b] processUpdate_wellFormed [OF assms, of graph userId msgText]
  show ?thesis by blast
qed

theorem session_isolation_witness:
  "wellFormed botStart
   \<and> getOrCreateSession 1 (snd (getOrCreateSession 1 botStart))
       = (fst (getOrCreateSession 1 botStart), snd (getOrCreateSession 1 botStart))
   \<and> storeRef (fst (getOrCreateSession 1 botStart))
       \<noteq> storeRef (fst (getOrCreateSession 2 (snd (getOrCreateSession 1 botStart))))
   \<and> plannerInput (processUpdate answeringGraph 1 (Some ''hi'') botStart) 2 ''hello''
       = plannerInput botStart 2 ''hello''
   \<and> storeOf (snd (getOrCreateSession 1 botStart)) 1 = Some (newMemoryStore 50)
   \<and> asyncWellFormed asyncStart
   \<and> length (awaitingTyping (arrive 1 (Some ''hi'') asyncStart)) = 1
   \<and> waitChat (awaitingTyping (arrive 1 (Some ''hi'') asyncStart) ! 0) = 1
   \<and> asyncWellFormed (typingSettled 0 True (arrive 1 (Some ''hi'') asyncStart))
   \<and> length (inFlight (typingSettled 0 True (arrive 1 (Some ''hi'') asyncStart))) = 1
   \<and> jobChat (inFlight (typingSettled 0 True (arrive 1 (Some ''hi'') asyncStart)) ! 0) = 1
   \<and> storeOf (botState (completeJob 0 (Inr [Message Assistant ''ok''])
                       (typingSettled 0 True (arrive 1 (Some ''hi'') asyncStart)))) 2
       = storeOf (botState (typingSettled 0 True (arrive 1 (Some ''hi'') asyncStart))) 2"
proof -
  have none: "sessions botStart 1 = None"
    by (simp add: botStart_def)
  have waiting: "snd (dispatch 1 (Some ''hi'') (botState asyncStart)) = Some ''hi''"
    by (simp add: dispatch_waiting trim_def isWhiteSpace_def)
  then have arrived: "length (awaitingTyping (arrive 1 (Some ''hi'') asyncStart)) = 1"
      "waitChat (awaitingTyping (arrive 1 (Some ''hi'') asyncStart) ! 0) = 1"
    by (simp_all add: arrive_parts asyncStart_def)
  have started: "asyncWellFormed (typingSettled 0 True (arrive 1 (Some ''hi'') asyncStart))"
    by (intro typingSettled_asyncWellFormed arrive_asyncWellFormed asyncWellFormed_asyncStart)
  have job: "length (inFlight (typingSettled 0 True (arrive 1 (Some ''hi'') asyncStart))) = 1"
      "jobChat (inFlight (typingSettled 0 True (arrive 1 (Some ''hi'') asyncStart)) ! 0) = 1"
    using arrived
    by (simp_all add: typingSettled_def Let_def split_beta arrive_parts asyncStart_def)
  from session_isolation [OF wellFormed_botStart, where userId = 1 and other = 2
      and graph = answeringGraph and msgText = "Some ''hi''" and userText = "''hello''"
      and updates = "[]"]
    wellFormed_botStart none asyncWellFormed_asyncStart arrived started job
  show ?thesis by simp
qed

section \<open>More than one job in flight\<close>

text \<open>
  C7, as stated, has at most one job in flight per chat id, a second message being queued
  or rejected. The callback has no such check: after \<open>first\<close> and \<open>second\<close> from chat 7,
  each with its typing indicator sent, two jobs of chat 7 are in flight on the same
  store, both started from the empty history, and nothing but the two typing indicators
  has been sent.
\<close>

theorem two_jobs_in_flight:
  "jobsInFlight twoMessages 7 = 2
   \<and> map jobSession (inFlight twoMessages) = [\<lparr>storeRef = 0\<rparr>, \<lparr>storeRef = 0\<rparr>]
   \<and> map capturedCount (inFlight twoMessages) = [0, 0]
   \<and> map capturedInput (inFlight twoMessages)
       = [[Message Human ''first''], [Message Human ''second'']]
   \<and> outbox (botState twoMessages) = [SendChatAction 7, SendChatAction 7]"
  by (simp add: twoMessages_def arrive_def typingSettled_def dispatch_def messageArrival_def
      onTextCallbacks_def matchesStart_def matchesHelp_def matchesClear_def matchesMemory_def
      sublist_code asyncStart_def botStart_def jobsInFlight_def getOrCreateSession_def
      getMessages_def newMemoryStore_def HumanMessage_def trim_def isWhiteSpace_def Let_def)

text \<open>
  C7 (amended). A second message for an identity whose job is still running is neither
  queued nor rejected. Whatever is in flight, a text that is not blank and does not begin
  with a slash leaves its callback waiting for the typing indicator, and once that is
  sent its job starts: the jobs in flight are the earlier ones and one more of the same
  identity. When the state is well formed, the new job holds the very session, and so the
  very Memory Store, that the identity's jobs already in flight hold.
\<close>

theorem second_message_starts_second_job:
  assumes "\<not> prefix ''/'' t" and "t \<noteq> []" and "trim t \<noteq> []"
  shows "awaitingTyping (arrive chatId (Some t) a)
        = awaitingTyping a @ [\<lparr>waitChat = chatId, waitText = t\<rparr>]
    \<and> inFlight (arrive chatId (Some t) a) = inFlight a
    \<and> jobsInFlight (typingSettled (length (awaitingTyping a)) True (arrive chatId (Some t) a)) chatId
        = Suc (jobsInFlight a chatId)
    \<and> (\<exists>job. inFlight (typingSettled (length (awaitingTyping a)) True (arrive chatId (Some t) a))
                = inFlight a @ [job]
          \<and> jobChat job = chatId
          \<and> jobText job = t
          \<and> (asyncWellFormed a \<longrightarrow>
                (\<forall>earlier \<in> set (inFlight a).
                   jobChat earlier = chatId \<longrightarrow> jobSession earlier = jobSession job)))"
proof -
  let ?a1 = "arrive chatId (Some t) a"
  let ?k = "length (awaitingTyping a)"
  let ?a2 = "typingSettled ?k True ?a1"
  have waiting: "snd (dispatch chatId (Some t) (botState a)) = Some t"
    using assms by (simp add: dispatch_waiting)
  then have queue: "awaitingTyping ?a1 = awaitingTyping a @ [\<lparr>waitChat = chatId, waitText = t\<rparr>]"
    by (simp add: arrive_parts)
  have same: "inFlight ?a1 = inFlight a"
    by (simp add: arrive_parts)
  from queue have k: "?k < length (awaitingTyping ?a1)"
    and mine: "awaitingTyping ?a1 ! ?k = \<lparr>waitChat = chatId, waitText = t\<rparr>"
    by simp_all
  let ?session = "fst (getOrCreateSession chatId (botState ?a1))"
  let ?input = "getMessages (stores (snd (getOrCreateSession chatId (botState ?a1)))
                  (storeRef ?session)) @ [HumanMessage t]"
  let ?job = "\<lparr>jobChat = chatId, jobText = t, jobSession = ?session,
                capturedCount = length ?input - 1, capturedInput = ?input\<rparr>"
  have jobs: "inFlight ?a2 = inFlight a @ [?job]"
    using k mine same by (simp add: typingSettled_def Let_def split_beta)
  then have count: "jobsInFlight ?a2 chatId = Suc (jobsInFlight a chatId)"
    by (simp add: jobsInFlight_def)
  have shared: "jobSession earlier = jobSession ?job"
    if "asyncWellFormed a" and "earlier \<in> set (inFlight a)" and "jobChat earlier = chatId"
    for earlier
  proof -
    from that have "sessions (botState a) chatId = Some (jobSession earlier)"
      by (auto simp: asyncWellFormed_def)
    then have "sessions (botState ?a1) chatId = Some (jobSession earlier)"
      by (simp add: arrive_parts dispatch_keeps)
    then show ?thesis
      by (simp add: getOrCreateSession_existing)
  qed
  from queue same count jobs shared show ?thesis
    by auto
qed

theorem second_message_starts_second_job_witness:
  "\<not> prefix ''/'' ''second'' \<and> ''second'' \<noteq> [] \<and> trim ''second'' \<noteq> []
   \<and> asyncWellFormed (typingSettled 0 True (arrive 7 (Some ''first'') asyncStart))
   \<and> jobsInFlight (typingSettled 0 True (arrive 7 (Some ''first'') asyncStart)) 7 = 1
   \<and> jobsInFlight twoMessages 7 = 2"
proof -
  let ?a = "typingSettled 0 True (arrive 7 (Some ''first'') asyncStart)"
  have plain: "\<not> prefix ''/'' ''second''" "''second'' \<noteq> []" "trim ''second'' \<noteq> []"
    by (simp_all add: trim_def isWhiteSpace_def)
  have first: "\<not> prefix ''/'' ''first''" "''first'' \<noteq> []" "trim ''first'' \<noteq> []"
    by (simp_all add: trim_def isWhiteSpace_def)
  have wf: "asyncWellFormed ?a"
    by (intro typingSettled_asyncWellFormed arrive_asyncWellFormed asyncWellFormed_asyncStart)
  have none: "awaitingTyping asyncStart = []" "jobsInFlight asyncStart 7 = 0"
    by (simp_all add: asyncStart_def jobsInFlight_def)
  have one: "jobsInFlight ?a 7 = 1"
    using second_message_starts_second_job [OF first, of 7 asyncStart] none by simp
  have idle: "awaitingTyping ?a = []"
    using first by (simp add: typingSettled_def arrive_parts dispatch_waiting asyncStart_def
        Let_def split_beta)
  have two: "jobsInFlight twoMessages 7 = 2"
    using second_message_starts_second_job [OF plain, of 7 ?a] one idle
    by (simp add: twoMessages_def)
  from plain wf one two show ?thesis by simp
qed

end
